theory Spec2Isabelle
  imports Main "HOL-Library.AList"
begin

section \<open>Data model\<close>

text \<open>
  Variable names are Python strings.  A Python \<^verbatim>\<open>dict\<close> keeps its keys in insertion
  order and the loops of \<^verbatim>\<open>jacobian.py\<close> iterate over \<^verbatim>\<open>.items()\<close>, so a dictionary is
  an association list whose keys are pairwise distinct.  \<^verbatim>\<open>d[k] = v\<close> is
  \<^const>\<open>AList.update\<close> (a bound key keeps its place, a new key goes to the end),
  \<^verbatim>\<open>d.get(k)\<close> and \<^verbatim>\<open>k in d\<close> are \<^const>\<open>map_of\<close>.
\<close>

type_synonym name = string

type_synonym ('k, 'v) dict = "('k \<times> 'v) list"

definition wf_dict :: "('k, 'v) dict \<Rightarrow> bool" where
  "wf_dict d = distinct (map fst d)"

text \<open>A Jacobian dictionary: output name to (input name to operator).\<close>

type_synonym 'op jacdict = "(name, (name, 'op) dict) dict"

definition wf_jacdict :: "'op jacdict \<Rightarrow> bool" where
  "wf_jacdict J = (wf_dict J \<and> list_all (\<lambda>(k, inner). wf_dict inner) J)"

text \<open>\<^verbatim>\<open>d.update(e)\<close>: every item of \<^verbatim>\<open>e\<close>, in order, is stored into \<^verbatim>\<open>d\<close>.\<close>

definition dict_update :: "('k, 'v) dict \<Rightarrow> ('k, 'v) dict \<Rightarrow> ('k, 'v) dict" where
  "dict_update d e = fold (\<lambda>(k, v) acc. AList.update k v acc) e d"

section \<open>Part 1: manipulating Jacobians\<close>

subsection \<open>\<^verbatim>\<open>compose_jacobians\<close>\<close>

text \<open>
  The Python operators \<^verbatim>\<open>@\<close> and \<^verbatim>\<open>+=\<close> dispatch on the classes of their operands
  (\<^verbatim>\<open>numpy.ndarray\<close>, \<^verbatim>\<open>SimpleSparse\<close>, \<^verbatim>\<open>IdentityMatrix\<close>); the first two classes are
  not part of \<^verbatim>\<open>jacobian.py\<close>.  The dictionary functions take the two operations as
  parameters \<open>matmul\<close> and \<open>add\<close>, so every statement about them holds for whatever the
  operand classes compute.

  The innermost statement of the three nested loops (lines 72--76).
\<close>

definition compose_inner_step ::
  "('a \<Rightarrow> 'b \<Rightarrow> 'c) \<Rightarrow> ('c \<Rightarrow> 'c \<Rightarrow> 'c) \<Rightarrow> 'a \<Rightarrow> name \<times> 'b \<Rightarrow> (name, 'c) dict \<Rightarrow> (name, 'c) dict" where
  "compose_inner_step matmul add jac1 = (\<lambda>(inp, jac2) inner.
     (case map_of inner inp of
        Some cur \<Rightarrow> AList.update inp (add cur (matmul jac1 jac2)) inner
      | None \<Rightarrow> AList.update inp (matmul jac1 jac2) inner))"

text \<open>The body of the loop over \<^verbatim>\<open>innerjac1.items()\<close> (lines 70--76);
  \<^verbatim>\<open>jacdict2.get(middle, {})\<close> is the empty dictionary for a missing key.\<close>

definition compose_middle_step ::
  "('a \<Rightarrow> 'b \<Rightarrow> 'c) \<Rightarrow> ('c \<Rightarrow> 'c \<Rightarrow> 'c) \<Rightarrow> (name, (name, 'b) dict) dict \<Rightarrow>
     name \<times> 'a \<Rightarrow> (name, 'c) dict \<Rightarrow> (name, 'c) dict" where
  "compose_middle_step matmul add jacdict2 = (\<lambda>(middle, jac1) inner.
     (let innerjac2 = (case map_of jacdict2 middle of Some d \<Rightarrow> d | None \<Rightarrow> [])
      in fold (compose_inner_step matmul add jac1) innerjac2 inner))"

text \<open>The body of the loop over \<^verbatim>\<open>jacdict1.items()\<close> (lines 68--76): the output is bound to
  a fresh dictionary, which the inner loops fill.\<close>

definition compose_output_step ::
  "('a \<Rightarrow> 'b \<Rightarrow> 'c) \<Rightarrow> ('c \<Rightarrow> 'c \<Rightarrow> 'c) \<Rightarrow> (name, (name, 'b) dict) dict \<Rightarrow>
     name \<times> (name, 'a) dict \<Rightarrow> (name, (name, 'c) dict) dict \<Rightarrow> (name, (name, 'c) dict) dict" where
  "compose_output_step matmul add jacdict2 = (\<lambda>(output, innerjac1) jacdict.
     AList.update output (fold (compose_middle_step matmul add jacdict2) innerjac1 []) jacdict)"

definition compose_jacobians ::
  "('a \<Rightarrow> 'b \<Rightarrow> 'c) \<Rightarrow> ('c \<Rightarrow> 'c \<Rightarrow> 'c) \<Rightarrow> (name, (name, 'b) dict) dict \<Rightarrow>
     (name, (name, 'a) dict) dict \<Rightarrow> (name, (name, 'c) dict) dict" where
  "compose_jacobians matmul add jacdict2 jacdict1 =
     fold (compose_output_step matmul add jacdict2) jacdict1 []"

text \<open>
  The chain-rule sum in the words of the specification: the terms
  \<open>J1[o][m] \<circ> J2[m][i]\<close>, for the middle variables \<open>m\<close> of \<open>J1[o]\<close> in their order, that
  have both \<open>m\<close> as an outer key of \<open>J2\<close> and \<open>i\<close> as a key of \<open>J2[m]\<close>; the sum of a
  non-empty list of terms is taken from the left, and no terms give no entry.
\<close>

definition chain_rule_terms ::
  "('a \<Rightarrow> 'b \<Rightarrow> 'c) \<Rightarrow> (name, (name, 'b) dict) dict \<Rightarrow> (name, 'a) dict \<Rightarrow> name \<Rightarrow> 'c list" where
  "chain_rule_terms matmul J2 innerjac1 i =
     List.map_filter (\<lambda>(m, jac1).
       (case map_of J2 m of
          None \<Rightarrow> None
        | Some innerjac2 \<Rightarrow> map_option (matmul jac1) (map_of innerjac2 i))) innerjac1"

definition sum_terms :: "('c \<Rightarrow> 'c \<Rightarrow> 'c) \<Rightarrow> 'c list \<Rightarrow> 'c option" where
  "sum_terms add ts = (case ts of [] \<Rightarrow> None | t # ts' \<Rightarrow> Some (foldl add t ts'))"

text \<open>The entry of a nested dictionary at an output and an input, if there is one.\<close>

definition entry :: "(name, (name, 'c) dict) dict \<Rightarrow> name \<Rightarrow> name \<Rightarrow> 'c option" where
  "entry J out inp = (case map_of J out of None \<Rightarrow> None | Some inner \<Rightarrow> map_of inner inp)"

text \<open>What the statements \<^verbatim>\<open>if k in d: d[k] += t  else: d[k] = t\<close> make of the binding of
  \<^verbatim>\<open>k\<close>, over a list of terms.\<close>

definition accum :: "('c \<Rightarrow> 'c \<Rightarrow> 'c) \<Rightarrow> 'c option \<Rightarrow> 'c list \<Rightarrow> 'c option" where
  "accum add cur ts = fold (\<lambda>t c. Some (case c of None \<Rightarrow> t | Some x \<Rightarrow> add x t)) ts cur"

subsection \<open>\<^verbatim>\<open>apply_jacobians\<close>\<close>

text \<open>The body of the inner loop (lines 84--89), for the output \<^verbatim>\<open>myout\<close>.\<close>

definition apply_inner_step ::
  "('a \<Rightarrow> 'v \<Rightarrow> 'w) \<Rightarrow> ('w \<Rightarrow> 'w \<Rightarrow> 'w) \<Rightarrow> (name, 'v) dict \<Rightarrow> name \<Rightarrow>
     name \<times> 'a \<Rightarrow> (name, 'w) dict \<Rightarrow> (name, 'w) dict" where
  "apply_inner_step matmul add indict myout = (\<lambda>(myin, jac) outdict.
     (case map_of indict myin of
        None \<Rightarrow> outdict
      | Some x \<Rightarrow>
          (case map_of outdict myout of
             Some cur \<Rightarrow> AList.update myout (add cur (matmul jac x)) outdict
           | None \<Rightarrow> AList.update myout (matmul jac x) outdict)))"

definition apply_jacobians ::
  "('a \<Rightarrow> 'v \<Rightarrow> 'w) \<Rightarrow> ('w \<Rightarrow> 'w \<Rightarrow> 'w) \<Rightarrow> (name, (name, 'a) dict) dict \<Rightarrow>
     (name, 'v) dict \<Rightarrow> (name, 'w) dict" where
  "apply_jacobians matmul add jacdict indict =
     fold (\<lambda>(myout, innerjacdict) outdict.
             fold (apply_inner_step matmul add indict myout) innerjacdict outdict) jacdict []"

text \<open>The sum of the specification: the terms \<open>jacdict[o][m] \<circ> value[m]\<close> for the inner
  keys \<open>m\<close> of \<open>jacdict[o]\<close>, in their order, that the value dictionary has.\<close>

definition apply_terms :: "('a \<Rightarrow> 'v \<Rightarrow> 'w) \<Rightarrow> (name, 'v) dict \<Rightarrow> (name, 'a) dict \<Rightarrow> 'w list" where
  "apply_terms matmul indict innerjacdict =
     List.map_filter (\<lambda>(m, jac). map_option (matmul jac) (map_of indict m)) innerjacdict"

subsection \<open>Operators\<close>

text \<open>
  A two-dimensional \<^verbatim>\<open>numpy\<close> array: its number of columns and its rows (the number of
  rows is the length of the list, so that an array with no row still has a shape).
  The entries are of any type \<open>'a\<close>: the functions of \<^verbatim>\<open>jacobian.py\<close> copy them or
  store them into an array of another dtype, and \<^verbatim>\<open>np.eye\<close> and \<^verbatim>\<open>np.zeros\<close> need
  \<open>0\<close> and \<open>1\<close>.
\<close>

datatype 'a ndarray = Array (ncols: nat) (rows: "'a list list")

definition nrows :: "'a ndarray \<Rightarrow> nat" where
  "nrows A = length (rows A)"

definition wf_ndarray :: "'a ndarray \<Rightarrow> bool" where
  "wf_ndarray A = list_all (\<lambda>r. length r = ncols A) (rows A)"

definition has_shape :: "nat \<Rightarrow> nat \<Rightarrow> 'a ndarray \<Rightarrow> bool" where
  "has_shape r c A = (nrows A = r \<and> ncols A = c \<and> wf_ndarray A)"

definition at :: "'a ndarray \<Rightarrow> nat \<Rightarrow> nat \<Rightarrow> 'a" where
  "at A i j = rows A ! i ! j"

definition np_eye :: "nat \<Rightarrow> ('a :: zero_neq_one) ndarray" where
  "np_eye T = Array T (map (\<lambda>i. map (\<lambda>j. if i = j then 1 else 0) [0..<T]) [0..<T])"

definition np_zeros :: "nat \<Rightarrow> nat \<Rightarrow> ('a :: zero) ndarray" where
  "np_zeros r c = Array c (replicate r (replicate c 0))"

text \<open>\<^verbatim>\<open>np.empty((r, c))\<close> returns uninitialised memory: its contents are whatever
  \<open>garbage\<close> happens to be there.\<close>

definition np_empty :: "(nat \<Rightarrow> nat \<Rightarrow> 'a) \<Rightarrow> nat \<Rightarrow> nat \<Rightarrow> 'a ndarray" where
  "np_empty garbage r c = Array c (map (\<lambda>i. map (garbage i) [0..<c]) [0..<r])"

text \<open>
  The operators of a Jacobian dictionary: an instance of \<^verbatim>\<open>IdentityMatrix\<close>, a
  \<^verbatim>\<open>numpy\<close> array, or an instance of \<^verbatim>\<open>SimpleSparse\<close>, a class of the module
  \<^verbatim>\<open>simple_block\<close> that is built from a dictionary of elements
  (\<^verbatim>\<open>sim.SimpleSparse({(0, 0): 1})\<close>, line 17).
\<close>

datatype 'a operator =
    IdentityMatrix
  | Dense "'a ndarray"
  | SimpleSparse "((int \<times> int), 'a) dict"

text \<open>The methods of \<^verbatim>\<open>IdentityMatrix\<close> (lines 15--27).  As values, \<^verbatim>\<open>copy.deepcopy(other)\<close>
  is \<^verbatim>\<open>other\<close>; that the copy is a new object is stated on the store below.\<close>

definition IdentityMatrix_sparse :: "('a :: one) operator" where
  "IdentityMatrix_sparse = SimpleSparse [((0, 0), 1)]"

definition IdentityMatrix_matrix :: "nat \<Rightarrow> ('a :: zero_neq_one) ndarray" where
  "IdentityMatrix_matrix T = np_eye T"

definition IdentityMatrix_matmul :: "'a operator \<Rightarrow> 'a operator" where
  "IdentityMatrix_matmul other = other"

definition IdentityMatrix_rmatmul :: "'a operator \<Rightarrow> 'a operator" where
  "IdentityMatrix_rmatmul other = other"

text \<open>\<^verbatim>\<open>make_matrix\<close> (lines 148--155); \<open>sparse_matrix\<close> is the method \<^verbatim>\<open>matrix\<close> of
  \<^verbatim>\<open>SimpleSparse\<close>.\<close>

definition make_matrix ::
  "(((int \<times> int), 'a) dict \<Rightarrow> nat \<Rightarrow> 'a ndarray) \<Rightarrow> ('a :: zero_neq_one) operator \<Rightarrow> nat \<Rightarrow> 'a ndarray" where
  "make_matrix sparse_matrix A T =
     (case A of
        Dense a \<Rightarrow> a
      | IdentityMatrix \<Rightarrow> IdentityMatrix_matrix T
      | SimpleSparse els \<Rightarrow> sparse_matrix els T)"

subsection \<open>\<^verbatim>\<open>chain_jacobians\<close>\<close>

text \<open>The dictionary comprehension \<^verbatim>\<open>{i: {i: IdentityMatrix()} for i in inputs}\<close>
  (lines 59 and 253).\<close>

definition identity_jacdict :: "name list \<Rightarrow> 'a operator jacdict" where
  "identity_jacdict inputs = fold (\<lambda>i acc. AList.update i [(i, IdentityMatrix)] acc) inputs []"

text \<open>One turn of the loop of line 60.\<close>

definition chain_step ::
  "('a operator \<Rightarrow> 'a operator \<Rightarrow> 'a operator) \<Rightarrow> ('a operator \<Rightarrow> 'a operator \<Rightarrow> 'a operator) \<Rightarrow>
     'a operator jacdict \<Rightarrow> 'a operator jacdict \<Rightarrow> 'a operator jacdict" where
  "chain_step matmul add jacdict cumulative_jacdict =
     dict_update cumulative_jacdict (compose_jacobians matmul add cumulative_jacdict jacdict)"

text \<open>The horizon \<^verbatim>\<open>T\<close> is a parameter of the source that its body never reads.\<close>

definition chain_jacobians ::
  "('a operator \<Rightarrow> 'a operator \<Rightarrow> 'a operator) \<Rightarrow> ('a operator \<Rightarrow> 'a operator \<Rightarrow> 'a operator) \<Rightarrow>
     'a operator jacdict list \<Rightarrow> name list \<Rightarrow> nat \<Rightarrow> 'a operator jacdict" where
  "chain_jacobians matmul add jacdicts inputs T =
     fold (chain_step matmul add) jacdicts (identity_jacdict inputs)"

section \<open>Graph construction and topological ordering\<close>

text \<open>The exceptions of \<^verbatim>\<open>curlyJ_sorted\<close> (lines 183 and 187), the failure of the
  topological sort, and the exceptions that \<^verbatim>\<open>numpy\<close> and Python raise on a bad index, on
  an object that is no array and on shapes that do not fit.\<close>

datatype error =
    ValueError_not_recognized
  | ValueError_output_twice name
  | Exception_cyclic_dependency
  | IndexError
  | TypeError
  | ValueError_broadcast

text \<open>
  An element of \<^verbatim>\<open>block_list\<close>: an instance of \<^verbatim>\<open>sim.SimpleBlock\<close> (a class of the module
  \<^verbatim>\<open>simple_block\<close>, of which \<^verbatim>\<open>jacobian.py\<close> reads \<^verbatim>\<open>input_list\<close> and \<^verbatim>\<open>output_list\<close>; the
  rest of the block is \<open>'f\<close>), a Jacobian dictionary, or any other object.
\<close>

datatype ('a, 'f) block =
    SimpleBlock (input_list: "name list") (output_list: "name list") 'f
  | JacobianDict "'a operator jacdict"
  | Unrecognized

text \<open>Lines 178--183.\<close>

definition output_list_of :: "('a, 'f) block \<Rightarrow> error + name list" where
  "output_list_of block =
     (case block of
        SimpleBlock il ol f \<Rightarrow> Inr ol
      | JacobianDict d \<Rightarrow> Inr (map fst d)
      | Unrecognized \<Rightarrow> Inl ValueError_not_recognized)"

text \<open>The loop of lines 185--188 for the block number \<^verbatim>\<open>num\<close>.\<close>

fun add_outputs :: "nat \<Rightarrow> name list \<Rightarrow> (name, nat) dict \<Rightarrow> error + (name, nat) dict" where
  "add_outputs num [] outmap = Inr outmap"
| "add_outputs num (out # outs) outmap =
     (if map_of outmap out \<noteq> None then Inl (ValueError_output_twice out)
      else add_outputs num outs (AList.update out num outmap))"

text \<open>Step 1 (lines 176--188), from the block number \<^verbatim>\<open>num\<close> on.\<close>

fun build_outmap ::
  "nat \<Rightarrow> ('a, 'f) block list \<Rightarrow> (name, nat) dict \<Rightarrow> error + (name, nat) dict" where
  "build_outmap num [] outmap = Inr outmap"
| "build_outmap num (block # blocks) outmap =
     (case output_list_of block of
        Inl e \<Rightarrow> Inl e
      | Inr outs \<Rightarrow>
          (case add_outputs num outs outmap of
             Inl e \<Rightarrow> Inl e
           | Inr outmap' \<Rightarrow> build_outmap (Suc num) blocks outmap'))"

text \<open>Lines 194--198.  \<^verbatim>\<open>list(set(input_list))\<close> drops the repetitions, in an order that
  Python does not fix; the loop that follows only adds to sets, so the order does not
  matter.  The branch for an unrecognised block is never reached: step 1 has raised.\<close>

definition input_list_of :: "('a, 'f) block \<Rightarrow> name list" where
  "input_list_of block =
     (case block of
        SimpleBlock il ol f \<Rightarrow> il
      | JacobianDict d \<Rightarrow> remdups (concat (map (\<lambda>(out, inner). map fst inner) d))
      | Unrecognized \<Rightarrow> [])"

text \<open>Lines 201--203: \<^verbatim>\<open>dep[num].add(outmap[i])\<close> and \<^verbatim>\<open>required.add(i)\<close>, when \<^verbatim>\<open>i\<close> is a
  key of \<^verbatim>\<open>outmap\<close>, and nothing otherwise.\<close>

definition dependency_step ::
  "(name, nat) dict \<Rightarrow> nat \<Rightarrow> name \<Rightarrow> (nat, nat set) dict \<times> name set \<Rightarrow> (nat, nat set) dict \<times> name set" where
  "dependency_step outmap num i = (\<lambda>(dep, required).
     (case map_of outmap i of
        None \<Rightarrow> (dep, required)
      | Some producer \<Rightarrow> (AList.map_entry num (insert producer) dep, insert i required)))"

text \<open>Step 2 (lines 193--203), from the block number \<^verbatim>\<open>num\<close> on.\<close>

fun dependencies ::
  "(name, nat) dict \<Rightarrow> nat \<Rightarrow> ('a, 'f) block list \<Rightarrow> (nat, nat set) dict \<times> name set \<Rightarrow>
     (nat, nat set) dict \<times> name set" where
  "dependencies outmap num [] acc = acc"
| "dependencies outmap num (block # blocks) acc =
     dependencies outmap (Suc num) blocks (fold (dependency_step outmap num) (input_list_of block) acc)"

text \<open>Step 4 (lines 211--217).  \<open>all_Js\<close> is \<^verbatim>\<open>sim.all_Js\<close>, a function of the module
  \<^verbatim>\<open>simple_block\<close>.\<close>

fun curlyJs_in_order ::
  "(('a, 'f) block \<Rightarrow> 'ss \<Rightarrow> name list \<Rightarrow> 'a operator jacdict) \<Rightarrow> ('a, 'f) block list \<Rightarrow> 'ss \<Rightarrow>
     name set \<Rightarrow> nat list \<Rightarrow> error + 'a operator jacdict list" where
  "curlyJs_in_order all_Js block_list ss shocks [] = Inr []"
| "curlyJs_in_order all_Js block_list ss shocks (num # nums) =
     (if length block_list \<le> num then Inl IndexError
      else
        (case (case block_list ! num of
                 SimpleBlock il ol f \<Rightarrow>
                   Inr (all_Js (block_list ! num) ss (filter (\<lambda>i. i \<in> shocks) il))
               | JacobianDict d \<Rightarrow> Inr d
               | Unrecognized \<Rightarrow> Inl ValueError_not_recognized) of
           Inl e \<Rightarrow> Inl e
         | Inr jac \<Rightarrow>
             (case curlyJs_in_order all_Js block_list ss shocks nums of
                Inl e \<Rightarrow> Inl e
              | Inr curlyJs \<Rightarrow> Inr (jac # curlyJs))))"

text \<open>\<^verbatim>\<open>curlyJ_sorted\<close> (lines 158--219).  \<open>topological_sort\<close> is
  \<^verbatim>\<open>utils.topological_sort\<close>, a function of the module \<^verbatim>\<open>utils\<close>.\<close>

definition curlyJ_sorted ::
  "((nat, nat set) dict \<Rightarrow> error + nat list) \<Rightarrow>
   (('a, 'f) block \<Rightarrow> 'ss \<Rightarrow> name list \<Rightarrow> 'a operator jacdict) \<Rightarrow>
     ('a, 'f) block list \<Rightarrow> name list \<Rightarrow> 'ss \<Rightarrow> error + ('a operator jacdict list \<times> name set)" where
  "curlyJ_sorted topological_sort all_Js block_list inputs ss =
     (case build_outmap 0 block_list [] of
        Inl e \<Rightarrow> Inl e
      | Inr outmap \<Rightarrow>
          (case dependencies outmap 0 block_list
                  (map (\<lambda>num. (num, {})) [0..<length block_list], {}) of
             (dep, required) \<Rightarrow>
               (case topological_sort dep of
                  Inl e \<Rightarrow> Inl e
                | Inr topsorted \<Rightarrow>
                    (case curlyJs_in_order all_Js block_list ss (set inputs \<union> required) topsorted of
                       Inl e \<Rightarrow> Inl e
                     | Inr curlyJs \<Rightarrow> Inr (curlyJs, required)))))"

text \<open>
  Modelled from the spec: \<^verbatim>\<open>utils.topological_sort\<close> is not in \<^verbatim>\<open>jacobian.py\<close>.  The
  specification asks for an order that contains every node once and each node after all
  the nodes it depends on, and for an error when the dependencies have a cycle.  The
  model appends, as long as it can, the first node not yet in the order whose
  dependencies are all in it; the fuel is the number of nodes.
\<close>

fun topological_sort_loop :: "nat \<Rightarrow> (nat, nat set) dict \<Rightarrow> nat list \<Rightarrow> error + nat list" where
  "topological_sort_loop 0 dep topsorted =
     (if length topsorted = length dep then Inr topsorted else Inl Exception_cyclic_dependency)"
| "topological_sort_loop (Suc fuel) dep topsorted =
     (case find (\<lambda>(num, deps). num \<notin> set topsorted \<and> deps \<subseteq> set topsorted) dep of
        None \<Rightarrow> (if length topsorted = length dep then Inr topsorted else Inl Exception_cyclic_dependency)
      | Some (num, deps) \<Rightarrow> topological_sort_loop fuel dep (topsorted @ [num]))"

definition topological_sort :: "(nat, nat set) dict \<Rightarrow> error + nat list" where
  "topological_sort dep = topological_sort_loop (length dep) dep []"

text \<open>
  Modelled from the spec: \<^verbatim>\<open>sim.all_Js\<close> is not in \<^verbatim>\<open>jacobian.py\<close>.  The specification
  asks for a Jacobian dictionary that maps each declared output of the block to a
  mapping from each shocked input to an operator; in the examples the operator is the
  identity and the steady state is \<open>()\<close>.
\<close>

definition example_all_Js :: "('a, 'f) block \<Rightarrow> unit \<Rightarrow> name list \<Rightarrow> 'a operator jacdict" where
  "example_all_Js block ss shock_list =
     (case output_list_of block of
        Inl e \<Rightarrow> []
      | Inr outs \<Rightarrow> map (\<lambda>out. (out, map (\<lambda>i. (i, IdentityMatrix)) shock_list)) outs)"

text \<open>The declared inputs of the nodes of a block list, and the names that its nodes
  produce.\<close>

definition declared_inputs :: "('a, 'f) block list \<Rightarrow> name set" where
  "declared_inputs block_list = (\<Union>block \<in> set block_list. set (input_list_of block))"

definition produced_outputs :: "('a, 'f) block list \<Rightarrow> name set" where
  "produced_outputs block_list =
     (\<Union>block \<in> set block_list. (case output_list_of block of Inl e \<Rightarrow> {} | Inr outs \<Rightarrow> set outs))"

section \<open>Packing and unpacking\<close>

text \<open>A loop whose body may raise: the first exception ends it.\<close>

fun fold_err :: "('x \<Rightarrow> 's \<Rightarrow> error + 's) \<Rightarrow> 'x list \<Rightarrow> 's \<Rightarrow> error + 's" where
  "fold_err f [] s = Inr s"
| "fold_err f (x # xs) s = (case f x s of Inl e \<Rightarrow> Inl e | Inr s' \<Rightarrow> fold_err f xs s')"

text \<open>
  \<^verbatim>\<open>outjac\<close> is the array of \<^verbatim>\<open>np.empty((nO * T, nI * T))\<close> (line 98), whose dtype is the
  default one, \<^verbatim>\<open>float64\<close>.  The assignment of line 102 stores into it, and \<^verbatim>\<open>numpy\<close>
  converts every number that it stores to the dtype of the array: the numbers of
  \<^verbatim>\<open>outjac\<close> have the type \<open>'f\<close>, the numbers of an entry of the dictionary any type
  \<open>'a\<close>, and \<open>float64_of\<close> is the conversion of the one to the other.
\<close>

definition astype :: "('a \<Rightarrow> 'f) \<Rightarrow> 'a ndarray \<Rightarrow> 'f ndarray" where
  "astype float64_of V = Array (ncols V) (map (map float64_of) (rows V))"

text \<open>
  The assignment \<^verbatim>\<open>outjac[a:b, c:d] = value\<close> of line 102 is \<^verbatim>\<open>numpy\<close>'s: the value
  must be an array, and it is broadcast to the shape of the slice, here \<open>T \<times> T\<close>.  A
  two-dimensional array broadcasts when each of its two dimensions is \<open>T\<close> or \<open>1\<close>;
  otherwise \<^verbatim>\<open>numpy\<close> raises \<^verbatim>\<open>ValueError\<close>.
\<close>

definition broadcast_to :: "nat \<Rightarrow> 'a ndarray \<Rightarrow> error + 'a list list" where
  "broadcast_to T V =
     (if (nrows V = T \<or> nrows V = 1) \<and> (ncols V = T \<or> ncols V = 1)
      then Inr (map (\<lambda>r. map (\<lambda>c. rows V ! (if nrows V = T then r else 0)
                                         ! (if ncols V = T then c else 0)) [0..<T]) [0..<T])
      else Inl ValueError_broadcast)"

text \<open>
  \<^verbatim>\<open>outjac[(T * iO):(T * (iO + 1)), (T * iI):(T * (iI + 1))] = v\<close>, for a slice that lies
  inside \<^verbatim>\<open>outjac\<close> (it always does in \<^verbatim>\<open>pack_jacobians\<close>).  The numbers of an array \<^verbatim>\<open>v\<close>
  are converted to \<^verbatim>\<open>float64\<close> and stored.  An object that is no array, such as an
  \<^verbatim>\<open>IdentityMatrix\<close> (lines 10--54: the class has no conversion to an array or to a
  number) or a \<^verbatim>\<open>SimpleSparse\<close>, cannot be stored into an array of numbers: \<^verbatim>\<open>numpy\<close>
  raises \<^verbatim>\<open>TypeError\<close>.
\<close>

definition assign_block ::
  "('a \<Rightarrow> 'f) \<Rightarrow> 'f ndarray \<Rightarrow> nat \<Rightarrow> nat \<Rightarrow> nat \<Rightarrow> 'a operator \<Rightarrow> error + 'f ndarray" where
  "assign_block float64_of outjac T iO iI v =
     (case v of
        Dense V \<Rightarrow>
          (case broadcast_to T (astype float64_of V) of
             Inl e \<Rightarrow> Inl e
           | Inr B \<Rightarrow>
               Inr (Array (ncols outjac)
                 (map (\<lambda>r. if T * iO \<le> r \<and> r < T * (iO + 1)
                            then map (\<lambda>c. if T * iI \<le> c \<and> c < T * (iI + 1)
                                           then B ! (r - T * iO) ! (c - T * iI)
                                           else rows outjac ! r ! c) [0..<ncols outjac]
                            else rows outjac ! r) [0..<nrows outjac])))
      | IdentityMatrix \<Rightarrow> Inl TypeError
      | SimpleSparse els \<Rightarrow> Inl TypeError)"

text \<open>
  The body of the loop over \<^verbatim>\<open>iO\<close> (lines 100--102).  The value of
  \<^verbatim>\<open>subdict.get(inputs[iI], np.zeros((T, T)))\<close> is stored as it is: no call of
  \<^verbatim>\<open>make_matrix\<close> or of a method \<^verbatim>\<open>matrix\<close> stands between the dictionary and the
  assignment.  The array of \<^verbatim>\<open>np.zeros\<close> is a \<^verbatim>\<open>float64\<close> array already, so that its
  numbers are stored unchanged.
\<close>

definition pack_row ::
  "('a \<Rightarrow> 'f) \<Rightarrow> 'a operator jacdict \<Rightarrow> name list \<Rightarrow> name list \<Rightarrow> nat \<Rightarrow> nat \<Rightarrow>
     ('f :: zero) ndarray \<Rightarrow> error + 'f ndarray" where
  "pack_row float64_of jacdict inputs outputs T iO outjac =
     (let subdict = (case map_of jacdict (outputs ! iO) of Some d \<Rightarrow> d | None \<Rightarrow> [])
      in fold_err (\<lambda>iI outjac.
            (case map_of subdict (inputs ! iI) of
               Some v \<Rightarrow> assign_block float64_of outjac T iO iI v
             | None \<Rightarrow> assign_block (\<lambda>x. x) outjac T iO iI (Dense (np_zeros T T))))
           [0..<length inputs] outjac)"

text \<open>\<^verbatim>\<open>pack_jacobians\<close> (lines 94--103).  \<open>garbage\<close> is what \<^verbatim>\<open>np.empty\<close> finds in
  memory.\<close>

definition pack_jacobians ::
  "('a \<Rightarrow> 'f) \<Rightarrow> (nat \<Rightarrow> nat \<Rightarrow> 'f) \<Rightarrow> 'a operator jacdict \<Rightarrow> name list \<Rightarrow> name list \<Rightarrow> nat \<Rightarrow>
     error + ('f :: zero) ndarray" where
  "pack_jacobians float64_of garbage jacdict inputs outputs T =
     (let nI = length inputs; nO = length outputs
      in fold_err (pack_row float64_of jacdict inputs outputs T) [0..<nO]
           (np_empty garbage (nO * T) (nI * T)))"

text \<open>The slice \<^verbatim>\<open>bigjac[(T * iO):(T * (iO + 1)), (T * iI):(T * (iI + 1))]\<close> of line 114;
  a slice that reaches beyond the array is cut at its border.\<close>

definition slice_block :: "'a ndarray \<Rightarrow> nat \<Rightarrow> nat \<Rightarrow> nat \<Rightarrow> 'a ndarray" where
  "slice_block bigjac T iO iI =
     Array (min T (ncols bigjac - T * iI))
       (map (\<lambda>row. take T (drop (T * iI) row)) (take T (drop (T * iO) (rows bigjac))))"

text \<open>\<^verbatim>\<open>unpack_jacobians\<close> (lines 106--115).\<close>

definition unpack_jacobians ::
  "'a ndarray \<Rightarrow> name list \<Rightarrow> name list \<Rightarrow> nat \<Rightarrow> 'a operator jacdict" where
  "unpack_jacobians bigjac inputs outputs T =
     (let nI = length inputs; nO = length outputs
      in fold (\<lambda>iO jacdict.
           AList.update (outputs ! iO)
             (fold (\<lambda>iI inner. AList.update (inputs ! iI) (Dense (slice_block bigjac T iO iI)) inner)
                [0..<nI] [])
             jacdict) [0..<nO] [])"

text \<open>
  The round trip \<^verbatim>\<open>unpack_jacobians(pack_jacobians(J, inputs, outputs, T), inputs, outputs, T)\<close>:
  an exception of the inner call is the exception of the expression.
\<close>

definition unpack_pack ::
  "('a \<Rightarrow> 'f) \<Rightarrow> (nat \<Rightarrow> nat \<Rightarrow> 'f) \<Rightarrow> 'a operator jacdict \<Rightarrow> name list \<Rightarrow> name list \<Rightarrow> nat \<Rightarrow>
     error + ('f :: zero) operator jacdict" where
  "unpack_pack float64_of garbage J inputs outputs T =
     (case pack_jacobians float64_of garbage J inputs outputs T of
        Inl e \<Rightarrow> Inl e
      | Inr bigjac \<Rightarrow> Inr (unpack_jacobians bigjac inputs outputs T))"

text \<open>
  The dictionaries all of whose entries at a listed output and a listed input are arrays
  of shape \<open>T \<times> T\<close>.
\<close>

definition is_block :: "nat \<Rightarrow> 'a operator \<Rightarrow> bool" where
  "is_block T v = (case v of Dense V \<Rightarrow> has_shape T T V | IdentityMatrix \<Rightarrow> False | SimpleSparse els \<Rightarrow> False)"

definition dense_blocks :: "nat \<Rightarrow> 'a operator jacdict \<Rightarrow> name list \<Rightarrow> name list \<Rightarrow> bool" where
  "dense_blocks T jacdict inputs outputs =
     list_all (\<lambda>out. list_all (\<lambda>inp.
        (case entry jacdict out inp of None \<Rightarrow> True | Some v \<Rightarrow> is_block T v)) inputs) outputs"

text \<open>
  The block of the specification for an output and an input: the dense matrix of the
  entry (\<^verbatim>\<open>make_matrix\<close>), as \<^verbatim>\<open>float64\<close> numbers, or the zero block when there is no
  entry.
\<close>

definition expected_block ::
  "(((int \<times> int), 'a) dict \<Rightarrow> nat \<Rightarrow> 'a ndarray) \<Rightarrow> ('a \<Rightarrow> 'f) \<Rightarrow> nat \<Rightarrow>
     ('a :: zero_neq_one) operator option \<Rightarrow> ('f :: zero) ndarray" where
  "expected_block sparse_matrix float64_of T e =
     (case e of
        Some v \<Rightarrow> astype float64_of (make_matrix sparse_matrix v T)
      | None \<Rightarrow> np_zeros T T)"

text \<open>
  For the examples, the numbers of the entries are 64-bit integers, and the \<^verbatim>\<open>float64\<close>
  numbers that come of them, which are integers too, are written as integers.  The
  conversion of a 64-bit integer to \<^verbatim>\<open>float64\<close> keeps the 53 leading binary digits and
  rounds to the nearest such number, to the even one of two that are equally near.
\<close>

function bit_length :: "int \<Rightarrow> nat" where
  "bit_length n = (if n \<le> 0 then 0 else Suc (bit_length (n div 2)))"
  by pat_completeness auto

termination bit_length
  by (relation "measure nat") auto

declare bit_length.simps [simp del]

definition float64_of_int64 :: "int \<Rightarrow> int" where
  "float64_of_int64 n =
     (let m = abs n;
          e = bit_length m - 53;
          q = m div 2 ^ e;
          r = m mod 2 ^ e;
          q' = (if 2 ^ e < 2 * r \<or> (2 * r = 2 ^ e \<and> odd q) then q + 1 else q)
      in (if n < 0 then - (q' * 2 ^ e) else q' * 2 ^ e))"

text \<open>Memory contents and Jacobian dictionaries for the examples.\<close>

definition example_garbage :: "nat \<Rightarrow> nat \<Rightarrow> int" where
  "example_garbage i j = 7"

definition example_jacdict :: "int operator jacdict" where
  "example_jacdict = [(''y'', [(''x'', Dense (Array 2 [[1, 2], [3, 4]]))])]"

section \<open>Part 2: forward accumulation\<close>

text \<open>
  \<^verbatim>\<open>forward_accumulate\<close> looks at the class of \<^verbatim>\<open>inputs\<close>: a dictionary of values selects
  the evaluation mode, anything else (a list of names) the derivative mode.  The result
  is a dictionary of dictionaries of operators in the one case, a dictionary of values
  in the other.  \<open>matvec\<close> and \<open>vadd\<close> are \<^verbatim>\<open>@\<close> and \<^verbatim>\<open>+=\<close> on values.
\<close>

datatype 'v inputs_arg = InputNames "name list" | InputValues "(name, 'v) dict"

datatype ('a, 'v) accumulated = Jacobians "'a operator jacdict" | Values "(name, 'v) dict"

text \<open>Lines 245--248.\<close>

definition alloutputs_of :: "name list option \<Rightarrow> name list option \<Rightarrow> name set option" where
  "alloutputs_of outputs required =
     (case outputs of
        None \<Rightarrow> None
      | Some os \<Rightarrow> (case required of None \<Rightarrow> None | Some rs \<Rightarrow> Some (set os \<union> set rs)))"

text \<open>Lines 258--259.\<close>

definition prune :: "name set option \<Rightarrow> (name, 'x) dict \<Rightarrow> (name, 'x) dict" where
  "prune alloutputs curlyJ =
     (case alloutputs of
        None \<Rightarrow> curlyJ
      | Some S \<Rightarrow> filter (\<lambda>(k, v). k \<in> S) curlyJ)"

text \<open>The loop of lines 257--263 in the derivative mode, from the accumulator \<open>out\<close>.\<close>

definition accumulate_jacobians ::
  "('a operator \<Rightarrow> 'a operator \<Rightarrow> 'a operator) \<Rightarrow> ('a operator \<Rightarrow> 'a operator \<Rightarrow> 'a operator) \<Rightarrow>
     name set option \<Rightarrow> 'a operator jacdict list \<Rightarrow> 'a operator jacdict \<Rightarrow> 'a operator jacdict" where
  "accumulate_jacobians matmul add alloutputs curlyJs out =
     fold (\<lambda>curlyJ out. dict_update out (compose_jacobians matmul add out (prune alloutputs curlyJ)))
       curlyJs out"

text \<open>The same loop in the evaluation mode.\<close>

definition accumulate_values ::
  "('a operator \<Rightarrow> 'v \<Rightarrow> 'v) \<Rightarrow> ('v \<Rightarrow> 'v \<Rightarrow> 'v) \<Rightarrow>
     name set option \<Rightarrow> 'a operator jacdict list \<Rightarrow> (name, 'v) dict \<Rightarrow> (name, 'v) dict" where
  "accumulate_values matvec vadd alloutputs curlyJs out =
     fold (\<lambda>curlyJ out. dict_update out (apply_jacobians matvec vadd (prune alloutputs curlyJ) out))
       curlyJs out"

text \<open>\<^verbatim>\<open>{k: out[k] for k in outputs if k in out}\<close> (line 266).\<close>

definition restrict_to :: "name list \<Rightarrow> (name, 'x) dict \<Rightarrow> (name, 'x) dict" where
  "restrict_to outputs out =
     fold (\<lambda>k acc. (case map_of out k of Some v \<Rightarrow> AList.update k v acc | None \<Rightarrow> acc)) outputs []"

text \<open>The accumulator after the loop, and the function itself (lines 245--271).\<close>

definition final_accumulator ::
  "('a operator \<Rightarrow> 'a operator \<Rightarrow> 'a operator) \<Rightarrow> ('a operator \<Rightarrow> 'a operator \<Rightarrow> 'a operator) \<Rightarrow>
   ('a operator \<Rightarrow> 'v \<Rightarrow> 'v) \<Rightarrow> ('v \<Rightarrow> 'v \<Rightarrow> 'v) \<Rightarrow>
     'a operator jacdict list \<Rightarrow> 'v inputs_arg \<Rightarrow> name list option \<Rightarrow> name list option \<Rightarrow>
     ('a, 'v) accumulated" where
  "final_accumulator matmul add matvec vadd curlyJs inputs outputs required =
     (let alloutputs = alloutputs_of outputs required in
      case inputs of
        InputNames ns \<Rightarrow>
          Jacobians (accumulate_jacobians matmul add alloutputs curlyJs (identity_jacdict ns))
      | InputValues d \<Rightarrow>
          Values (accumulate_values matvec vadd alloutputs curlyJs d))"

definition forward_accumulate ::
  "('a operator \<Rightarrow> 'a operator \<Rightarrow> 'a operator) \<Rightarrow> ('a operator \<Rightarrow> 'a operator \<Rightarrow> 'a operator) \<Rightarrow>
   ('a operator \<Rightarrow> 'v \<Rightarrow> 'v) \<Rightarrow> ('v \<Rightarrow> 'v \<Rightarrow> 'v) \<Rightarrow>
     'a operator jacdict list \<Rightarrow> 'v inputs_arg \<Rightarrow> name list option \<Rightarrow> name list option \<Rightarrow>
     ('a, 'v) accumulated" where
  "forward_accumulate matmul add matvec vadd curlyJs inputs outputs required =
     (let alloutputs = alloutputs_of outputs required in
      case inputs of
        InputNames ns \<Rightarrow>
          (let out = accumulate_jacobians matmul add alloutputs curlyJs (identity_jacdict ns) in
           case outputs of
             Some os \<Rightarrow> Jacobians (restrict_to os out)
           | None \<Rightarrow> Jacobians (filter (\<lambda>(k, v). k \<notin> set ns) out))
      | InputValues d \<Rightarrow>
          (let out = accumulate_values matvec vadd alloutputs curlyJs d in
           case outputs of
             Some os \<Rightarrow> Values (restrict_to os out)
           | None \<Rightarrow> Values out))"

text \<open>The key set of either result.\<close>

definition keys_of :: "('a, 'v) accumulated \<Rightarrow> name set" where
  "keys_of r = (case r of Jacobians d \<Rightarrow> fst ` set d | Values d \<Rightarrow> fst ` set d)"

section \<open>Objects and aliasing\<close>

text \<open>
  Whether two operators are the same object is not a matter of their values.  For the
  methods of \<^verbatim>\<open>IdentityMatrix\<close> that copy, the operator objects live in a store: an object
  is an address (an index of the list), its contents are the operator at that address,
  and a new object gets the next free address.
\<close>

type_synonym 'a store = "'a operator list"

text \<open>\<^verbatim>\<open>copy.deepcopy(other)\<close> for an operator object (an \<^verbatim>\<open>IdentityMatrix\<close>, an array of
  numbers, a \<^verbatim>\<open>SimpleSparse\<close> with its dictionary of numbers): a new object with the
  contents of \<^verbatim>\<open>other\<close>, sharing nothing with it.\<close>

definition deepcopy :: "'a store \<Rightarrow> nat \<Rightarrow> 'a store \<times> nat" where
  "deepcopy h a = (h @ [h ! a], length h)"

text \<open>\<^verbatim>\<open>__matmul__\<close> and \<^verbatim>\<open>__rmatmul__\<close> (lines 22--27) on the store.\<close>

definition IdentityMatrix_matmul_store :: "'a store \<Rightarrow> nat \<Rightarrow> nat \<Rightarrow> 'a store \<times> nat" where
  "IdentityMatrix_matmul_store h self other = deepcopy h other"

definition IdentityMatrix_rmatmul_store :: "'a store \<Rightarrow> nat \<Rightarrow> nat \<Rightarrow> 'a store \<times> nat" where
  "IdentityMatrix_rmatmul_store h self other = deepcopy h other"

text \<open>The result is a deep copy of \<^verbatim>\<open>other\<close>: a valid address that did not exist before,
  with the contents of \<^verbatim>\<open>other\<close>, and every object that existed is as it was.\<close>

definition is_deep_copy :: "'a store \<Rightarrow> nat \<Rightarrow> 'a store \<times> nat \<Rightarrow> bool" where
  "is_deep_copy h other res =
     (case res of (h', r) \<Rightarrow>
        r < length h' \<and> h' ! r = h ! other \<and> r \<noteq> other \<and> length h \<le> r \<and> take (length h) h' = h)"

text \<open>
  The evaluation mode of \<^verbatim>\<open>forward_accumulate\<close> with its objects in a heap, to see what
  the call does to the dictionary it is given.  A dictionary object binds names to the
  addresses of value objects; dictionaries and values have their own address spaces.
  The Jacobian dictionaries are only read and stay values.
\<close>

record 'v heap =
  dicts :: "(name, nat) dict list"
  objs :: "'v list"

text \<open>A new value object, a new dictionary object, and \<^verbatim>\<open>d[k] = a\<close>.\<close>

definition alloc_obj :: "'v \<Rightarrow> 'v heap \<Rightarrow> 'v heap \<times> nat" where
  "alloc_obj v h = (h\<lparr>objs := objs h @ [v]\<rparr>, length (objs h))"

definition alloc_dict :: "(name, nat) dict \<Rightarrow> 'v heap \<Rightarrow> 'v heap \<times> nat" where
  "alloc_dict d h = (h\<lparr>dicts := dicts h @ [d]\<rparr>, length (dicts h))"

definition set_item :: "nat \<Rightarrow> name \<Rightarrow> nat \<Rightarrow> 'v heap \<Rightarrow> 'v heap" where
  "set_item d k a h = h\<lparr>dicts := list_update (dicts h) d (AList.update k a (dicts h ! d))\<rparr>"

text \<open>
  \<^verbatim>\<open>outdict[myout] += tmp\<close>: when the class of the object bound to \<^verbatim>\<open>myout\<close> has
  \<^verbatim>\<open>__iadd__\<close> (\<open>inplace\<close>; an array has), the object itself is changed and stays bound;
  otherwise \<^verbatim>\<open>+\<close> makes a new object.
\<close>

definition iadd :: "('v \<Rightarrow> bool) \<Rightarrow> ('v \<Rightarrow> 'v \<Rightarrow> 'v) \<Rightarrow> nat \<Rightarrow> nat \<Rightarrow> 'v heap \<Rightarrow> 'v heap \<times> nat" where
  "iadd inplace vadd cur tmp h =
     (if inplace (objs h ! cur)
      then (h\<lparr>objs := list_update (objs h) cur (vadd (objs h ! cur) (objs h ! tmp))\<rparr>, cur)
      else alloc_obj (vadd (objs h ! cur) (objs h ! tmp)) h)"

text \<open>Lines 85--89 on the heap.  \<^verbatim>\<open>jac @ indict[myin]\<close> makes a new object: the product
  of \<^verbatim>\<open>numpy\<close> or \<^verbatim>\<open>SimpleSparse\<close>, or the deep copy of \<^verbatim>\<open>IdentityMatrix.__matmul__\<close>.\<close>

definition apply_inner_step_store ::
  "('a \<Rightarrow> 'v \<Rightarrow> 'v) \<Rightarrow> ('v \<Rightarrow> 'v \<Rightarrow> 'v) \<Rightarrow> ('v \<Rightarrow> bool) \<Rightarrow> nat \<Rightarrow> nat \<Rightarrow> name \<Rightarrow>
     name \<times> 'a \<Rightarrow> 'v heap \<Rightarrow> 'v heap" where
  "apply_inner_step_store matvec vadd inplace indict outdict myout = (\<lambda>(myin, jac) h.
     (case map_of (dicts h ! indict) myin of
        None \<Rightarrow> h
      | Some x \<Rightarrow>
          (case alloc_obj (matvec jac (objs h ! x)) h of
             (h1, tmp) \<Rightarrow>
               (case map_of (dicts h1 ! outdict) myout of
                  Some cur \<Rightarrow>
                    (case iadd inplace vadd cur tmp h1 of
                       (h2, r) \<Rightarrow> set_item outdict myout r h2)
                | None \<Rightarrow> set_item outdict myout tmp h1))))"

text \<open>\<^verbatim>\<open>apply_jacobians\<close> (lines 80--91) on the heap: \<^verbatim>\<open>outdict = {}\<close> is a new
  dictionary object.\<close>

definition apply_jacobians_store ::
  "('a \<Rightarrow> 'v \<Rightarrow> 'v) \<Rightarrow> ('v \<Rightarrow> 'v \<Rightarrow> 'v) \<Rightarrow> ('v \<Rightarrow> bool) \<Rightarrow> (name, (name, 'a) dict) dict \<Rightarrow>
     nat \<Rightarrow> 'v heap \<Rightarrow> 'v heap \<times> nat" where
  "apply_jacobians_store matvec vadd inplace jacdict indict h =
     (case alloc_dict [] h of
        (h0, outdict) \<Rightarrow>
          (fold (\<lambda>(myout, innerjacdict) h.
                   fold (apply_inner_step_store matvec vadd inplace indict outdict myout)
                     innerjacdict h) jacdict h0,
           outdict))"

text \<open>Lines 258--263 in the evaluation mode: \<^verbatim>\<open>out.update(apply_jacobians(curlyJ, out))\<close>.\<close>

definition forward_step_store ::
  "('a \<Rightarrow> 'v \<Rightarrow> 'v) \<Rightarrow> ('v \<Rightarrow> 'v \<Rightarrow> 'v) \<Rightarrow> ('v \<Rightarrow> bool) \<Rightarrow> name set option \<Rightarrow> nat \<Rightarrow>
     (name, (name, 'a) dict) dict \<Rightarrow> 'v heap \<Rightarrow> 'v heap" where
  "forward_step_store matvec vadd inplace alloutputs out curlyJ h =
     (case apply_jacobians_store matvec vadd inplace (prune alloutputs curlyJ) out h of
        (h1, outdict) \<Rightarrow>
          h1\<lparr>dicts := list_update (dicts h1) out
                          (dict_update (dicts h1 ! out) (dicts h1 ! outdict))\<rparr>)"

text \<open>\<^verbatim>\<open>forward_accumulate\<close> (lines 245--271) in the evaluation mode: \<^verbatim>\<open>inputs\<close> is the
  address of a dictionary object, \<^verbatim>\<open>out = inputs.copy()\<close> is a new dictionary object with
  the same bindings, and the comprehension of line 266 is a new dictionary object.\<close>

definition forward_accumulate_store ::
  "('a \<Rightarrow> 'v \<Rightarrow> 'v) \<Rightarrow> ('v \<Rightarrow> 'v \<Rightarrow> 'v) \<Rightarrow> ('v \<Rightarrow> bool) \<Rightarrow> (name, (name, 'a) dict) dict list \<Rightarrow>
     nat \<Rightarrow> name list option \<Rightarrow> name list option \<Rightarrow> 'v heap \<Rightarrow> 'v heap \<times> nat" where
  "forward_accumulate_store matvec vadd inplace curlyJs inputs outputs required h =
     (case alloc_dict (dicts h ! inputs) h of
        (h0, out) \<Rightarrow>
          (let h1 = fold (forward_step_store matvec vadd inplace
                            (alloutputs_of outputs required) out) curlyJs h0
           in case outputs of
                Some os \<Rightarrow> alloc_dict (restrict_to os (dicts h1 ! out)) h1
              | None \<Rightarrow> (h1, out)))"

text \<open>Every object of the heap \<open>h\<close> is in \<open>h'\<close> as it was in \<open>h\<close>.\<close>

definition preserves :: "'v heap \<Rightarrow> 'v heap \<Rightarrow> bool" where
  "preserves h h' =
     (take (length (dicts h)) (dicts h') = dicts h \<and> take (length (objs h)) (objs h') = objs h)"

text \<open>The dictionary object \<open>d\<close> of \<open>h'\<close> did not exist in \<open>h\<close> and binds only value
  objects that did not exist in \<open>h\<close>.\<close>

definition fresh_dict :: "'v heap \<Rightarrow> nat \<Rightarrow> 'v heap \<Rightarrow> bool" where
  "fresh_dict h d h' =
     (length (dicts h) \<le> d \<and> d < length (dicts h') \<and>
      list_all (\<lambda>(k, a). length (objs h) \<le> a) (dicts h' ! d))"

text \<open>A heap for the examples: integers for the values, which are changed in place.\<close>

definition example_inplace :: "int \<Rightarrow> bool" where
  "example_inplace v = True"

definition example_heap :: "int heap" where
  "example_heap = \<lparr>dicts = [[(''x'', 0), (''w'', 1)]], objs = [5, 7]\<rparr>"

section \<open>An instance of the operations for the examples\<close>

text \<open>
  The statements below hold for every \<open>matmul\<close> and \<open>add\<close>.  Their examples need one
  instance: integer entries, the matrix product and the entrywise sum of \<^verbatim>\<open>numpy\<close> on
  arrays of fitting shapes, and the methods \<^verbatim>\<open>__matmul__\<close> and \<^verbatim>\<open>__rmatmul__\<close> of
  \<^verbatim>\<open>IdentityMatrix\<close> (\<^verbatim>\<open>numpy\<close> leaves \<^verbatim>\<open>A @ I\<close> to \<^verbatim>\<open>I.__rmatmul__\<close> because of
  \<^verbatim>\<open>__array_priority__\<close>, line 13).  The examples hold no \<^verbatim>\<open>SimpleSparse\<close> operand and
  add nothing to an \<^verbatim>\<open>IdentityMatrix\<close>; on such operands the instance returns its first
  argument and says nothing about the source.
\<close>

definition ndarray_matmul :: "('a :: semiring_0) ndarray \<Rightarrow> 'a ndarray \<Rightarrow> 'a ndarray" where
  "ndarray_matmul A B =
     Array (ncols B)
       (map (\<lambda>row. map (\<lambda>j. sum_list (map (\<lambda>k. row ! k * at B k j) [0..<ncols A])) [0..<ncols B])
          (rows A))"

definition ndarray_add :: "('a :: semiring_0) ndarray \<Rightarrow> 'a ndarray \<Rightarrow> 'a ndarray" where
  "ndarray_add A B = Array (ncols A) (map2 (map2 plus) (rows A) (rows B))"

fun example_matmul :: "int operator \<Rightarrow> int operator \<Rightarrow> int operator" where
  "example_matmul IdentityMatrix b = IdentityMatrix_matmul b"
| "example_matmul (Dense x) IdentityMatrix = IdentityMatrix_rmatmul (Dense x)"
| "example_matmul (Dense x) (Dense y) = Dense (ndarray_matmul x y)"
| "example_matmul a b = a"

fun example_add :: "int operator \<Rightarrow> int operator \<Rightarrow> int operator" where
  "example_add (Dense x) (Dense y) = Dense (ndarray_add x y)"
| "example_add a b = a"

section \<open>Properties of the dictionary operations\<close>

lemma map_of_dict_update:
  "map_of (dict_update d e) k = (case map_of (rev e) k of Some v \<Rightarrow> Some v | None \<Rightarrow> map_of d k)"
  unfolding dict_update_def
proof (induction e arbitrary: d)
  case Nil
  show ?case by simp
next
  case (Cons p e)
  obtain k' v' where p: "p = (k', v')" by (cases p)
  show ?case
    by (simp add: p Cons.IH update_conv' map_add_def split: option.splits)
qed

section \<open>The chain rule on dictionaries\<close>

lemma accum_Some: "accum add (Some x) ts = Some (foldl add x ts)"
  unfolding accum_def by (induction ts arbitrary: x) simp_all

lemma accum_None: "accum add None ts = sum_terms add ts"
proof (cases ts)
  case Nil
  then show ?thesis by (simp add: sum_terms_def accum_def)
next
  case (Cons t ts')
  have "accum add None (t # ts') = accum add (Some t) ts'" by (simp add: accum_def)
  then show ?thesis by (simp add: Cons sum_terms_def accum_Some)
qed

lemma accum_append: "accum add c (xs @ ys) = accum add (accum add c xs) ys"
  by (simp add: accum_def)

lemma map_of_compose_inner_step:
  "map_of (compose_inner_step matmul add jac1 (k, v) inner) i =
     (if i = k then accum add (map_of inner k) [matmul jac1 v] else map_of inner i)"
  by (simp add: compose_inner_step_def update_conv' accum_def split: option.splits)

lemma map_of_compose_inner:
  "wf_dict innerjac2 \<Longrightarrow>
   map_of (fold (compose_inner_step matmul add jac1) innerjac2 inner) i =
     (case map_of innerjac2 i of
        None \<Rightarrow> map_of inner i
      | Some jac2 \<Rightarrow> accum add (map_of inner i) [matmul jac1 jac2])"
proof (induction innerjac2 arbitrary: inner)
  case Nil
  show ?case by simp
next
  case (Cons p ps)
  obtain k v where p: "p = (k, v)" by (cases p)
  from Cons.prems have d: "wf_dict ps" and nk: "map_of ps k = None"
    by (auto simp: wf_dict_def p map_of_eq_None_iff)
  show ?case
    using nk
    by (auto simp: p Cons.IH[OF d] map_of_compose_inner_step accum_def split: option.splits)
qed

lemma map_of_compose_middle:
  "list_all (\<lambda>(k, inner). wf_dict inner) J2 \<Longrightarrow>
   map_of (fold (compose_middle_step matmul add J2) innerjac1 inner) i =
     accum add (map_of inner i) (chain_rule_terms matmul J2 innerjac1 i)"
proof (induction innerjac1 arbitrary: inner)
  case Nil
  show ?case by (simp add: chain_rule_terms_def accum_def map_filter_simps)
next
  case (Cons p ps)
  obtain m jac1 where p: "p = (m, jac1)" by (cases p)
  have wf2: "wf_dict d" if "map_of J2 m = Some d" for d
    using Cons.prems map_of_SomeD[OF that] by (auto simp: list_all_iff)
  have step: "map_of (compose_middle_step matmul add J2 (m, jac1) inner) i =
     accum add (map_of inner i) (chain_rule_terms matmul J2 [(m, jac1)] i)"
  proof (cases "map_of J2 m")
    case None
    then show ?thesis
      by (simp add: compose_middle_step_def chain_rule_terms_def map_filter_simps accum_def)
  next
    case (Some d)
    show ?thesis
      by (simp add: compose_middle_step_def chain_rule_terms_def map_filter_simps Some
          map_of_compose_inner[OF wf2[OF Some]] accum_def split: option.splits)
  qed
  have app: "chain_rule_terms matmul J2 ((m, jac1) # ps) i =
     chain_rule_terms matmul J2 [(m, jac1)] i @ chain_rule_terms matmul J2 ps i"
    by (simp add: chain_rule_terms_def map_filter_simps split: option.splits)
  have "map_of (fold (compose_middle_step matmul add J2) ps
          (compose_middle_step matmul add J2 (m, jac1) inner)) i =
        accum add (map_of (compose_middle_step matmul add J2 (m, jac1) inner) i)
          (chain_rule_terms matmul J2 ps i)"
    by (rule Cons.IH[OF Cons.prems])
  then show ?case
    by (simp add: p step app accum_append)
qed

lemma map_of_fold_update_image:
  "distinct (map fst xs) \<Longrightarrow>
   map_of (fold (\<lambda>(k, v) acc. AList.update k (f v) acc) xs acc) k =
     (case map_of xs k of None \<Rightarrow> map_of acc k | Some v \<Rightarrow> Some (f v))"
proof (induction xs arbitrary: acc)
  case Nil
  show ?case by simp
next
  case (Cons p ps)
  obtain k' v' where p: "p = (k', v')" by (cases p)
  from Cons.prems have d: "distinct (map fst ps)" and nk: "map_of ps k' = None"
    by (auto simp: p map_of_eq_None_iff)
  show ?case using nk
    by (auto simp: p Cons.IH[OF d] update_conv' split: option.splits)
qed

lemma compose_alt: "compose_jacobians matmul add J2 J1 =
   fold (\<lambda>(k, v) acc. AList.update k (fold (compose_middle_step matmul add J2) v []) acc) J1 []"
  unfolding compose_jacobians_def compose_output_step_def ..

text \<open>
  Claim C1.  For Jacobian dictionaries \<open>J2\<close> (the accumulator) and \<open>J1\<close>, the outputs of
  \<^verbatim>\<open>compose_jacobians(J2, J1)\<close> are the outputs of \<open>J1\<close>, and its entry at an output \<open>o\<close>
  of \<open>J1\<close> and an input \<open>i\<close> is the sum, in the order of \<open>J1[o]\<close>, of the terms
  \<open>J1[o][m] \<circ> J2[m][i]\<close> over exactly the middle variables \<open>m\<close> of \<open>J1[o]\<close> for which \<open>J2\<close>
  has the entry \<open>J2[m][i]\<close>.  A middle variable that is no outer key of \<open>J2\<close> gives no
  term; the function is total, so it raises nothing; and when there is no term at all the
  pair \<open>(o, i)\<close> has no entry (the implicit zero).
\<close>

theorem compose_jacobians_chain_rule:
  assumes "wf_jacdict J2" and "wf_dict J1"
  shows "fst ` set (compose_jacobians matmul add J2 J1) = fst ` set J1 \<and>
    entry (compose_jacobians matmul add J2 J1) out inp =
      (case map_of J1 out of
         None \<Rightarrow> None
       | Some innerjac1 \<Rightarrow> sum_terms add (chain_rule_terms matmul J2 innerjac1 inp))"
proof (intro conjI)
  have m: "map_of (compose_jacobians matmul add J2 J1) k =
     map_option (\<lambda>v. fold (compose_middle_step matmul add J2) v []) (map_of J1 k)" for k
    unfolding compose_alt
    using assms(2) by (simp add: map_of_fold_update_image wf_dict_def split: option.splits)
  have "dom (map_of (compose_jacobians matmul add J2 J1)) = dom (map_of J1)"
    by (auto simp: m dom_def)
  then show "fst ` set (compose_jacobians matmul add J2 J1) = fst ` set J1"
    by (simp add: dom_map_of_conv_image_fst)
  show "entry (compose_jacobians matmul add J2 J1) out inp =
      (case map_of J1 out of
         None \<Rightarrow> None
       | Some innerjac1 \<Rightarrow> sum_terms add (chain_rule_terms matmul J2 innerjac1 inp))"
    using assms(1)
    by (simp add: entry_def m map_of_compose_middle wf_jacdict_def accum_None[symmetric] accum_def
        split: option.splits)
qed

text \<open>An instance over the integers (operators on sequences of length one): the middle
  variable \<open>q\<close> is missing from \<open>J2\<close>, and \<open>5 \<cdot> 2 + 7 \<cdot> 3 = 31\<close>.\<close>

theorem compose_jacobians_chain_rule_witness:
  "wf_jacdict [(''m'', [(''x'', 2 :: int)]), (''n'', [(''x'', 3)])] \<and>
   wf_dict [(''o'', [(''m'', 5 :: int), (''q'', 11), (''n'', 7)])] \<and>
   fst ` set (compose_jacobians times plus [(''m'', [(''x'', 2 :: int)]), (''n'', [(''x'', 3)])]
       [(''o'', [(''m'', 5 :: int), (''q'', 11), (''n'', 7)])]) = {''o''} \<and>
   entry (compose_jacobians times plus [(''m'', [(''x'', 2 :: int)]), (''n'', [(''x'', 3)])]
       [(''o'', [(''m'', 5 :: int), (''q'', 11), (''n'', 7)])]) ''o'' ''x'' = Some 31"
proof -
  have h2: "wf_jacdict [(''m'', [(''x'', 2 :: int)]), (''n'', [(''x'', 3)])]"
    by (simp add: wf_jacdict_def wf_dict_def)
  have h1: "wf_dict [(''o'', [(''m'', 5 :: int), (''q'', 11), (''n'', 7)])]"
    by (simp add: wf_dict_def)
  show ?thesis
    using compose_jacobians_chain_rule [OF h2 h1, of times plus "''o''" "''x''"] h1 h2
    by (simp add: chain_rule_terms_def sum_terms_def map_filter_simps)
qed

lemma map_of_apply_inner_step:
  "map_of (apply_inner_step matmul add indict myout (m, jac) outdict) k =
     (if k = myout then accum add (map_of outdict myout) (apply_terms matmul indict [(m, jac)])
      else map_of outdict k)"
  by (simp add: apply_inner_step_def apply_terms_def map_filter_simps update_conv' accum_def
      split: option.splits)

lemma apply_terms_Cons:
  "apply_terms matmul indict (p # ps) = apply_terms matmul indict [p] @ apply_terms matmul indict ps"
  by (simp add: apply_terms_def map_filter_simps split: option.splits)

lemma map_of_apply_inner:
  "map_of (fold (apply_inner_step matmul add indict myout) innerjacdict outdict) k =
     (if k = myout then accum add (map_of outdict myout) (apply_terms matmul indict innerjacdict)
      else map_of outdict k)"
proof (induction innerjacdict arbitrary: outdict)
  case Nil
  show ?case by (simp add: apply_terms_def map_filter_simps accum_def)
next
  case (Cons p ps)
  obtain m jac where p: "p = (m, jac)" by (cases p)
  show ?case
    by (simp add: p Cons.IH map_of_apply_inner_step apply_terms_Cons[of _ _ "(m, jac)" ps]
        accum_append)
qed

lemma map_of_apply_outer:
  "distinct (map fst jacdict) \<Longrightarrow>
   map_of (fold (\<lambda>(myout, innerjacdict) outdict.
             fold (apply_inner_step matmul add indict myout) innerjacdict outdict) jacdict outdict) k =
     (case map_of jacdict k of
        None \<Rightarrow> map_of outdict k
      | Some inner \<Rightarrow> accum add (map_of outdict k) (apply_terms matmul indict inner))"
proof (induction jacdict arbitrary: outdict)
  case Nil
  show ?case by simp
next
  case (Cons p ps)
  obtain myout inner where p: "p = (myout, inner)" by (cases p)
  from Cons.prems have d: "distinct (map fst ps)" and nk: "map_of ps myout = None"
    by (auto simp: p map_of_eq_None_iff)
  show ?case using nk
    by (auto simp: p Cons.IH[OF d] map_of_apply_inner split: option.splits)
qed

lemma sum_terms_None: "sum_terms add ts = None \<longleftrightarrow> ts = []"
  by (simp add: sum_terms_def split: list.splits)

lemma apply_terms_Nil:
  "apply_terms matmul indict innerjacdict = [] \<longleftrightarrow>
     \<not> list_ex (\<lambda>(m, jac). map_of indict m \<noteq> None) innerjacdict"
  by (induction innerjacdict)
     (auto simp: apply_terms_def map_filter_simps split: option.splits)

text \<open>
  Claim C6.  \<^verbatim>\<open>apply_jacobians\<close> binds an output \<open>o\<close> of the Jacobian dictionary exactly when
  some inner key of \<open>jacdict[o]\<close> is a key of the value dictionary, and then to the sum, in
  the order of \<open>jacdict[o]\<close>, of \<open>jacdict[o][m]\<close> applied to \<open>value[m]\<close> over exactly those
  \<open>m\<close>.  An output with no such inner key is not a key of the result (it is not bound to
  a zero), and the function is total: a missing input raises nothing.
\<close>

theorem apply_jacobians_sum:
  assumes "wf_dict jacdict"
  shows "map_of (apply_jacobians matmul add jacdict indict) out =
      (case map_of jacdict out of
         None \<Rightarrow> None
       | Some innerjacdict \<Rightarrow> sum_terms add (apply_terms matmul indict innerjacdict)) \<and>
    (out \<in> fst ` set (apply_jacobians matmul add jacdict indict)) =
      (case map_of jacdict out of
         None \<Rightarrow> False
       | Some innerjacdict \<Rightarrow> list_ex (\<lambda>(m, jac). map_of indict m \<noteq> None) innerjacdict)"
proof -
  have m: "map_of (apply_jacobians matmul add jacdict indict) out =
      (case map_of jacdict out of
         None \<Rightarrow> None
       | Some innerjacdict \<Rightarrow> sum_terms add (apply_terms matmul indict innerjacdict))"
    using assms
    by (simp add: apply_jacobians_def map_of_apply_outer wf_dict_def accum_None
        split: option.splits)
  have "(out \<in> fst ` set (apply_jacobians matmul add jacdict indict)) =
      (map_of (apply_jacobians matmul add jacdict indict) out \<noteq> None)"
    by (simp add: map_of_eq_None_iff)
  also have "\<dots> = (case map_of jacdict out of
         None \<Rightarrow> False
       | Some innerjacdict \<Rightarrow> list_ex (\<lambda>(m, jac). map_of indict m \<noteq> None) innerjacdict)"
  proof (cases "map_of jacdict out")
    case None
    then show ?thesis by (simp add: m)
  next
    case (Some inner)
    have "(sum_terms add (apply_terms matmul indict inner) \<noteq> None) =
        list_ex (\<lambda>(m, jac). map_of indict m \<noteq> None) inner"
      by (simp only: sum_terms_None apply_terms_Nil not_not)
    then show ?thesis by (simp only: m Some option.case)
  qed
  finally show ?thesis using m by simp
qed

text \<open>An instance over the integers: \<open>y\<close> sums the two inputs that are there and skips the
  missing \<open>b\<close>; none of the inputs of \<open>z\<close> is there, and \<open>z\<close> is no key of the result.\<close>

theorem apply_jacobians_sum_witness:
  "wf_dict [(''y'', [(''a'', 2 :: int), (''b'', 3), (''c'', 4)]), (''z'', [(''b'', 5)])] \<and>
   map_of (apply_jacobians times plus
       [(''y'', [(''a'', 2 :: int), (''b'', 3), (''c'', 4)]), (''z'', [(''b'', 5)])]
       [(''a'', 10 :: int), (''c'', 100)]) ''y'' = Some 420 \<and>
   ''z'' \<notin> fst ` set (apply_jacobians times plus
       [(''y'', [(''a'', 2 :: int), (''b'', 3), (''c'', 4)]), (''z'', [(''b'', 5)])]
       [(''a'', 10 :: int), (''c'', 100)])"
proof -
  have h: "wf_dict [(''y'', [(''a'', 2 :: int), (''b'', 3), (''c'', 4)]), (''z'', [(''b'', 5)])]"
    by (simp add: wf_dict_def)
  show ?thesis
    using h apply_jacobians_sum [OF h, of times plus "[(''a'', 10 :: int), (''c'', 100)]" "''y''"]
      apply_jacobians_sum [OF h, of times plus "[(''a'', 10 :: int), (''c'', 100)]" "''z''"]
    by (simp add: apply_terms_def sum_terms_def map_filter_simps)
qed

section \<open>Chaining and forward accumulation\<close>

lemma dom_fold_update:
  "fst ` set (fold (\<lambda>(k, v) acc. AList.update k (f v) acc) xs acc) = fst ` set acc \<union> fst ` set xs"
proof (induction xs arbitrary: acc)
  case Nil
  show ?case by simp
next
  case (Cons p ps)
  obtain k v where p: "p = (k, v)" by (cases p)
  show ?case by (auto simp: p Cons.IH dom_update)
qed

lemma distinct_fold_update:
  "distinct (map fst acc) \<Longrightarrow>
   distinct (map fst (fold (\<lambda>(k, v) acc. AList.update k (f v) acc) xs acc))"
proof (induction xs arbitrary: acc)
  case Nil
  then show ?case by simp
next
  case (Cons p ps)
  obtain k v where p: "p = (k, v)" by (cases p)
  show ?case using Cons.prems by (simp add: p Cons.IH distinct_update)
qed

lemma dict_update_alt:
  "dict_update d e = fold (\<lambda>(k, v) acc. AList.update k ((\<lambda>v. v) v) acc) e d"
  by (simp add: dict_update_def)

lemma dom_dict_update: "fst ` set (dict_update d e) = fst ` set d \<union> fst ` set e"
  unfolding dict_update_alt by (rule dom_fold_update)

lemma wf_dict_update: "wf_dict d \<Longrightarrow> wf_dict (dict_update d e)"
  unfolding dict_update_alt wf_dict_def by (rule distinct_fold_update)

lemma map_of_identity_jacdict:
  "map_of (identity_jacdict inputs) k = (if k \<in> set inputs then Some [(k, IdentityMatrix)] else None)"
proof -
  have "map_of (fold (\<lambda>i acc. AList.update i [(i, IdentityMatrix)] acc) inputs acc) k =
      (if k \<in> set inputs then Some [(k, IdentityMatrix)] else map_of acc k)" for acc :: "'a operator jacdict"
    by (induction inputs arbitrary: acc) (auto simp: update_conv')
  then show ?thesis by (simp add: identity_jacdict_def)
qed

lemma dom_identity_jacdict: "fst ` set (identity_jacdict inputs) = set inputs"
proof -
  have "dom (map_of (identity_jacdict inputs :: 'a operator jacdict)) = set inputs"
    by (auto simp: map_of_identity_jacdict dom_def)
  then show ?thesis by (simp add: dom_map_of_conv_image_fst)
qed

lemma dom_compose_jacobians:
  "fst ` set (compose_jacobians matmul add J2 J1) = fst ` set J1"
  unfolding compose_alt by (simp add: dom_fold_update)

lemma chain_jacobians_snoc:
  "chain_jacobians matmul add (jacdicts @ [J]) inputs T =
     chain_step matmul add J (chain_jacobians matmul add jacdicts inputs T)"
  by (simp add: chain_jacobians_def)

lemma dom_chain_step:
  "fst ` set (chain_step matmul add J acc) = fst ` set acc \<union> fst ` set J"
  by (simp add: chain_step_def dom_dict_update dom_compose_jacobians)

lemma map_of_rev_distinct:
  "distinct (map fst xs) \<Longrightarrow> map_of (rev xs) = map_of xs"
  by (rule map_of_inject_set[THEN iffD2]) (simp_all add: distinct_rev rev_map[symmetric])

lemma wf_compose_jacobians: "wf_dict (compose_jacobians matmul add J2 J1)"
  unfolding compose_alt wf_dict_def by (rule distinct_fold_update) simp

lemma map_of_chain_step:
  "map_of (chain_step matmul add J acc) k =
     (case map_of (compose_jacobians matmul add acc J) k of
        Some inner \<Rightarrow> Some inner
      | None \<Rightarrow> map_of acc k)"
  using wf_compose_jacobians[of matmul add acc J]
  by (simp add: chain_step_def map_of_dict_update map_of_rev_distinct wf_dict_def)

lemma dom_chain_jacobians:
  "fst ` set (chain_jacobians matmul add jacdicts inputs T) =
     set inputs \<union> (\<Union>J \<in> set jacdicts. fst ` set J)"
proof (induction jacdicts rule: rev_induct)
  case Nil
  show ?case by (simp add: chain_jacobians_def dom_identity_jacdict)
next
  case (snoc J Js)
  show ?case by (simp add: chain_jacobians_snoc dom_chain_step snoc.IH) blast
qed

text \<open>
  Claim C2, as amended.  \<^verbatim>\<open>chain_jacobians\<close> starts from the dictionary that binds each
  input name \<open>i\<close> to \<open>{i: identity}\<close>, and folds \<^verbatim>\<open>compose_jacobians\<close> over the Jacobian
  dictionaries in the given order.  A fold step stores the newly composed entries into
  the accumulator with \<^verbatim>\<open>dict.update\<close>: an outer key that the composed dictionary does not
  have keeps its inner dictionary, an outer key that it has is rebound to the newly
  composed inner dictionary, and no outer key is ever removed, so that the outer keys of
  the result are the input names and all the outputs of the Jacobian dictionaries.
\<close>

theorem chain_jacobians_fold:
  "chain_jacobians matmul add [] inputs T = identity_jacdict inputs \<and>
   map_of (identity_jacdict inputs :: 'a operator jacdict) k =
     (if k \<in> set inputs then Some [(k, IdentityMatrix)] else None) \<and>
   chain_jacobians matmul add (jacdicts @ [J]) inputs T =
     dict_update (chain_jacobians matmul add jacdicts inputs T)
       (compose_jacobians matmul add (chain_jacobians matmul add jacdicts inputs T) J) \<and>
   map_of (dict_update acc (compose_jacobians matmul add acc J)) k =
     (case map_of (compose_jacobians matmul add acc J) k of
        Some inner \<Rightarrow> Some inner
      | None \<Rightarrow> map_of acc k) \<and>
   fst ` set (dict_update acc (compose_jacobians matmul add acc J)) = fst ` set acc \<union> fst ` set J \<and>
   fst ` set (chain_jacobians matmul add jacdicts inputs T) =
     set inputs \<union> (\<Union>J \<in> set jacdicts. fst ` set J)"
  using map_of_chain_step[of matmul add J acc k] dom_chain_step[of matmul add J acc]
  by (simp add: chain_jacobians_snoc map_of_identity_jacdict dom_chain_jacobians)
     (simp add: chain_jacobians_def chain_step_def)


lemmas eval_defs = chain_jacobians_def chain_step_def dict_update_def compose_jacobians_def
  compose_output_step_def compose_middle_step_def compose_inner_step_def identity_jacdict_def
  entry_def IdentityMatrix_matmul_def IdentityMatrix_rmatmul_def

text \<open>
  The claim as stated says that an entry produced by an earlier step is never erased by a
  later one.  When a later Jacobian dictionary has an output name of an earlier one,
  \<^verbatim>\<open>dict.update\<close> replaces the whole inner dictionary: the entry of \<open>y\<close> with respect to
  \<open>x\<close> that the first step produces is gone after the second.
\<close>

theorem chain_jacobians_erases_counterexample:
  "entry (chain_jacobians example_matmul example_add
       [[(''y'', [(''x'', IdentityMatrix)])]] [''x''] 1) ''y'' ''x'' = Some IdentityMatrix \<and>
   entry (chain_jacobians example_matmul example_add
       [[(''y'', [(''x'', IdentityMatrix)])], [(''y'', [(''w'', IdentityMatrix)])]] [''x''] 1)
     ''y'' ''x'' = None"
  by (simp add: eval_defs)

lemma accumulate_jacobians_None:
  "accumulate_jacobians matmul add None curlyJs out = fold (chain_step matmul add) curlyJs out"
proof -
  have "chain_step matmul add =
      (\<lambda>curlyJ out. dict_update out (compose_jacobians matmul add out curlyJ))"
    by (intro ext) (simp add: chain_step_def)
  then show ?thesis by (simp add: accumulate_jacobians_def prune_def)
qed

text \<open>
  Claim C5, as amended.  In the derivative mode with \<^verbatim>\<open>outputs\<close> and \<^verbatim>\<open>required\<close> both
  absent, \<^verbatim>\<open>forward_accumulate\<close> returns what \<^verbatim>\<open>chain_jacobians\<close> returns on the same list
  and inputs with the outer keys that are input names removed (line 269).
\<close>

theorem forward_accumulate_chain:
  "forward_accumulate matmul add matvec vadd curlyJs (InputNames inputs) None None =
     Jacobians (filter (\<lambda>(k, v). k \<notin> set inputs) (chain_jacobians matmul add curlyJs inputs T))"
  by (simp add: forward_accumulate_def alloutputs_of_def accumulate_jacobians_None
      chain_jacobians_def)

text \<open>
  The claim as stated says that the two mappings are the same: \<^verbatim>\<open>chain_jacobians\<close> keeps the
  entry of the input \<open>x\<close>, \<^verbatim>\<open>forward_accumulate\<close> does not.
\<close>

theorem forward_accumulate_chain_counterexample:
  "forward_accumulate example_matmul example_add example_matmul example_add
       [[(''y'', [(''x'', IdentityMatrix)])]] (InputNames [''x'']) None None =
     Jacobians [(''y'', [(''x'', IdentityMatrix)])] \<and>
   chain_jacobians example_matmul example_add [[(''y'', [(''x'', IdentityMatrix)])]] [''x''] 1 =
     [(''x'', [(''x'', IdentityMatrix)]), (''y'', [(''x'', IdentityMatrix)])]"
  by (simp add: eval_defs forward_accumulate_def alloutputs_of_def accumulate_jacobians_def prune_def)

lemma dom_restrict_to: "fst ` set (restrict_to os out) = {k \<in> set os. k \<in> fst ` set out}"
proof -
  have "fst ` set (fold (\<lambda>k acc. (case map_of out k of Some v \<Rightarrow> AList.update k v acc | None \<Rightarrow> acc))
            os acc) = fst ` set acc \<union> {k \<in> set os. k \<in> fst ` set out}" for acc
  proof (induction os arbitrary: acc)
    case Nil
    show ?case by simp
  next
    case (Cons k ks)
    show ?case
    proof (cases "map_of out k")
      case None
      then have "k \<notin> fst ` set out" by (simp add: map_of_eq_None_iff)
      then show ?thesis by (auto simp: Cons.IH None)
    next
      case (Some v)
      then have "k \<in> fst ` set out" by (metis map_of_eq_None_iff option.distinct(1))
      then show ?thesis by (auto simp: Cons.IH Some dom_update)
    qed
  qed
  then show ?thesis by (simp add: restrict_to_def)
qed

lemma map_of_restrict_to:
  "map_of (restrict_to os out) k = (if k \<in> set os then map_of out k else None)"
proof -
  have "map_of (fold (\<lambda>k acc. (case map_of out k of Some v \<Rightarrow> AList.update k v acc | None \<Rightarrow> acc))
            os acc) k = (if k \<in> set os \<and> map_of out k \<noteq> None then map_of out k else map_of acc k)" for acc
    by (induction os arbitrary: acc) (auto simp: update_conv' split: option.splits)
  then show ?thesis by (auto simp: restrict_to_def)
qed

lemma dom_accumulate_values:
  "fst ` set out \<subseteq> fst ` set (accumulate_values matvec vadd alloutputs curlyJs out)"
  unfolding accumulate_values_def
proof (induction curlyJs arbitrary: out)
  case Nil
  show ?case by simp
next
  case (Cons J Js)
  have "fst ` set out \<subseteq> fst ` set (dict_update out (apply_jacobians matvec vadd (prune alloutputs J) out))"
    by (simp add: dom_dict_update)
  also have "\<dots> \<subseteq> fst ` set (fold (\<lambda>curlyJ out. dict_update out (apply_jacobians matvec vadd (prune alloutputs curlyJ) out))
       Js (dict_update out (apply_jacobians matvec vadd (prune alloutputs J) out)))"
    by (rule Cons.IH)
  finally show ?case by simp
qed

text \<open>
  Claim C4.  With \<^verbatim>\<open>outputs\<close> supplied, the keys of the result of \<^verbatim>\<open>forward_accumulate\<close>
  are exactly the supplied outputs that are keys of the final accumulator (a name that
  was never produced is left out; the function is total and raises nothing).  Without
  \<^verbatim>\<open>outputs\<close>, the derivative mode returns the keys of the final accumulator that are no
  input names, and the evaluation mode returns the final accumulator itself, in which
  every key of the input dictionary is still a key.
\<close>

theorem forward_accumulate_keys:
  "keys_of (forward_accumulate matmul add matvec vadd curlyJs inputs (Some os) required) =
     {k \<in> set os. k \<in> keys_of (final_accumulator matmul add matvec vadd curlyJs inputs (Some os) required)} \<and>
   keys_of (forward_accumulate matmul add matvec vadd curlyJs (InputNames ns) None required) =
     keys_of (final_accumulator matmul add matvec vadd curlyJs (InputNames ns) None required) - set ns \<and>
   forward_accumulate matmul add matvec vadd curlyJs (InputValues d) None required =
     final_accumulator matmul add matvec vadd curlyJs (InputValues d) None required \<and>
   fst ` set d \<subseteq> keys_of (forward_accumulate matmul add matvec vadd curlyJs (InputValues d) None required)"
proof (intro conjI)
  show "keys_of (forward_accumulate matmul add matvec vadd curlyJs inputs (Some os) required) =
     {k \<in> set os. k \<in> keys_of (final_accumulator matmul add matvec vadd curlyJs inputs (Some os) required)}"
    by (cases inputs)
       (simp_all add: forward_accumulate_def final_accumulator_def keys_of_def Let_def dom_restrict_to)
  show "keys_of (forward_accumulate matmul add matvec vadd curlyJs (InputNames ns) None required) =
     keys_of (final_accumulator matmul add matvec vadd curlyJs (InputNames ns) None required) - set ns"
    by (auto simp: forward_accumulate_def final_accumulator_def keys_of_def Let_def image_iff)
  show "forward_accumulate matmul add matvec vadd curlyJs (InputValues d) None required =
     final_accumulator matmul add matvec vadd curlyJs (InputValues d) None required"
    by (simp add: forward_accumulate_def final_accumulator_def)
  show "fst ` set d \<subseteq> keys_of (forward_accumulate matmul add matvec vadd curlyJs (InputValues d) None required)"
    by (simp add: forward_accumulate_def keys_of_def Let_def dom_accumulate_values)
qed

section \<open>The required set of \<^verbatim>\<open>curlyJ_sorted\<close>\<close>

lemma dom_add_outputs:
  "add_outputs num outs outmap = Inr outmap' \<Longrightarrow> fst ` set outmap' = fst ` set outmap \<union> set outs"
proof (induction outs arbitrary: outmap)
  case Nil
  then show ?case by simp
next
  case (Cons out outs)
  from Cons.prems have "add_outputs num outs (AList.update out num outmap) = Inr outmap'"
    by (simp split: if_splits)
  from Cons.IH[OF this] show ?case by (auto simp: dom_update)
qed

lemma dom_build_outmap:
  "build_outmap num block_list outmap = Inr outmap' \<Longrightarrow>
   fst ` set outmap' = fst ` set outmap \<union> produced_outputs block_list"
proof (induction block_list arbitrary: num outmap)
  case Nil
  then show ?case by (simp add: produced_outputs_def)
next
  case (Cons block blocks)
  from Cons.prems obtain outs om where
    o: "output_list_of block = Inr outs" and
    a: "add_outputs num outs outmap = Inr om" and
    b: "build_outmap (Suc num) blocks om = Inr outmap'"
    by (auto split: sum.splits)
  have "produced_outputs (block # blocks) = set outs \<union> produced_outputs blocks"
    by (simp add: produced_outputs_def o)
  then show ?case
    using Cons.IH[OF b] dom_add_outputs[OF a] by auto
qed

lemma snd_dependency_step:
  "snd (dependency_step outmap num i acc) =
     (if i \<in> fst ` set outmap then insert i (snd acc) else snd acc)"
proof (cases "map_of outmap i")
  case None
  then have "i \<notin> fst ` set outmap" by (simp add: map_of_eq_None_iff)
  then show ?thesis by (simp add: dependency_step_def None split: prod.splits)
next
  case (Some p)
  then have "i \<in> fst ` set outmap" by (metis map_of_eq_None_iff option.distinct(1))
  then show ?thesis by (simp add: dependency_step_def Some split: prod.splits)
qed

lemma snd_fold_dependency_step:
  "snd (fold (dependency_step outmap num) ins acc) =
     snd acc \<union> {i \<in> set ins. i \<in> fst ` set outmap}"
proof (induction ins arbitrary: acc)
  case Nil
  show ?case by simp
next
  case (Cons i ins)
  show ?case by (auto simp: Cons.IH snd_dependency_step)
qed

lemma snd_dependencies:
  "snd (dependencies outmap num block_list acc) =
     snd acc \<union> {i \<in> declared_inputs block_list. i \<in> fst ` set outmap}"
proof (induction block_list arbitrary: num acc)
  case Nil
  show ?case by (simp add: declared_inputs_def)
next
  case (Cons block blocks)
  show ?case
    by (auto simp: Cons.IH snd_fold_dependency_step declared_inputs_def)
qed

text \<open>
  Claim C3, as amended.  For every block list that \<^verbatim>\<open>curlyJ_sorted\<close> accepts, whatever the
  topological sort and the block evaluator are, the returned \<^verbatim>\<open>required\<close> set is exactly
  the set of declared inputs of a node that are produced by a node of the list (the
  intermediate outputs that some block consumes).
\<close>

theorem curlyJ_sorted_required:
  assumes "curlyJ_sorted topological_sort' all_Js block_list inputs ss = Inr (curlyJs, required)"
  shows "required = declared_inputs block_list \<inter> produced_outputs block_list"
proof -
  from assms obtain outmap dep where
    om: "build_outmap 0 block_list [] = Inr outmap" and
    d: "dependencies outmap 0 block_list (map (\<lambda>num. (num, {})) [0..<length block_list], {}) =
          (dep, required)"
    by (auto simp: curlyJ_sorted_def split: sum.splits prod.splits)
  have "fst ` set outmap = produced_outputs block_list"
    using dom_build_outmap[OF om] by simp
  moreover have "required = {i \<in> declared_inputs block_list. i \<in> fst ` set outmap}"
    using snd_dependencies[of outmap 0 block_list "(map (\<lambda>num. (num, {})) [0..<length block_list], {})"]
    by (simp add: d)
  ultimately show ?thesis by auto
qed


lemmas curlyJ_eval = curlyJ_sorted_def output_list_of_def input_list_of_def dependency_step_def
  topological_sort_def example_all_Js_def declared_inputs_def produced_outputs_def

theorem curlyJ_sorted_required_witness:
  "curlyJ_sorted topological_sort example_all_Js
     [JacobianDict [(''z'', [(''y'', IdentityMatrix :: int operator)])],
      SimpleBlock [''x'', ''w''] [''y''] ()] [''x''] () =
     Inr ([[(''y'', [(''x'', IdentityMatrix)])], [(''z'', [(''y'', IdentityMatrix)])]], {''y''}) \<and>
   {''y''} = declared_inputs
     [JacobianDict [(''z'', [(''y'', IdentityMatrix :: int operator)])],
      SimpleBlock [''x'', ''w''] [''y''] ()] \<inter>
     produced_outputs
     [JacobianDict [(''z'', [(''y'', IdentityMatrix :: int operator)])],
      SimpleBlock [''x'', ''w''] [''y''] ()]"
proof -
  have e: "curlyJ_sorted topological_sort example_all_Js
     [JacobianDict [(''z'', [(''y'', IdentityMatrix :: int operator)])],
      SimpleBlock [''x'', ''w''] [''y''] ()] [''x''] () =
     Inr ([[(''y'', [(''x'', IdentityMatrix)])], [(''z'', [(''y'', IdentityMatrix)])]], {''y''})"
    by (simp add: curlyJ_eval numeral_2_eq_2)
  show ?thesis using e curlyJ_sorted_required [OF e] by simp
qed

text \<open>
  The claim as stated puts into \<^verbatim>\<open>required\<close> the declared inputs that no node produces.
  Here \<open>x\<close> is a declared input that no node produces, the list is accepted, and
  \<^verbatim>\<open>required\<close> is empty.
\<close>

theorem curlyJ_sorted_required_counterexample:
  "curlyJ_sorted topological_sort example_all_Js
     [JacobianDict [(''y'', [(''x'', IdentityMatrix :: int operator)])]] [''x''] () =
     Inr ([[(''y'', [(''x'', IdentityMatrix)])]], {}) \<and>
   ''x'' \<in> declared_inputs [JacobianDict [(''y'', [(''x'', IdentityMatrix :: int operator)])]] \<and>
   ''x'' \<notin> produced_outputs [JacobianDict [(''y'', [(''x'', IdentityMatrix :: int operator)])]]"
  by (simp add: curlyJ_eval)

section \<open>Packing and unpacking: the blocks of the flat matrix\<close>

lemma has_shape_rows:
  "has_shape r c A \<Longrightarrow> length (rows A) = r \<and> ncols A = c \<and> (\<forall>i < r. length (rows A ! i) = c)"
  by (auto simp: has_shape_def nrows_def wf_ndarray_def list_all_length)

lemma has_shapeI:
  "length (rows A) = r \<Longrightarrow> ncols A = c \<Longrightarrow> (\<And>i. i < r \<Longrightarrow> length (rows A ! i) = c) \<Longrightarrow> has_shape r c A"
  by (auto simp: has_shape_def nrows_def wf_ndarray_def list_all_length)

lemma broadcast_to_same:
  assumes "has_shape T T V"
  shows "broadcast_to T V = Inr (rows V)"
proof -
  from has_shape_rows[OF assms] have l: "length (rows V) = T" and c: "ncols V = T"
    and r: "\<And>i. i < T \<Longrightarrow> length (rows V ! i) = T" by auto
  have "map (\<lambda>r. map (\<lambda>c. rows V ! r ! c) [0..<T]) [0..<T] = rows V"
    by (rule nth_equalityI) (auto simp: l r intro!: nth_equalityI)
  then show ?thesis by (simp add: broadcast_to_def nrows_def l c)
qed

lemma in_block_iff:
  "(T * i \<le> (c::nat) \<and> c < T * (i + 1)) \<longleftrightarrow> (0 < T \<and> c div T = i)"
proof (cases "T = 0")
  case True
  then show ?thesis by simp
next
  case False
  then have T: "0 < T" by simp
  show ?thesis
  proof
    assume a: "T * i \<le> c \<and> c < T * (i + 1)"
    then have "i \<le> c div T" using T by (simp add: less_eq_div_iff_mult_less_eq mult.commute)
    moreover have "c div T < i + 1" using a T by (simp add: div_less_iff_less_mult mult.commute)
    ultimately show "0 < T \<and> c div T = i" using T by simp
  next
    assume a: "0 < T \<and> c div T = i"
    have "T * (c div T) \<le> c" by simp
    moreover have "c < T * (c div T + 1)" using T
      by (metis Suc_eq_plus1 dividend_less_times_div mult.commute mult_Suc)
    ultimately show "T * i \<le> c \<and> c < T * (i + 1)" using a by simp
  qed
qed

lemma sub_block_mod: "(c::nat) div T = i \<Longrightarrow> c - T * i = c mod T"
  by (metis minus_mult_div_eq_mod)

lemma has_shape_astype: "has_shape r c V \<Longrightarrow> has_shape r c (astype f V)"
  by (auto simp: has_shape_def nrows_def wf_ndarray_def astype_def list_all_length)

lemma at_astype:
  "has_shape r c V \<Longrightarrow> i < r \<Longrightarrow> j < c \<Longrightarrow> at (astype f V) i j = f (at V i j)"
  by (auto simp: has_shape_def nrows_def wf_ndarray_def astype_def list_all_length at_def)

lemma astype_id: "astype (\<lambda>x. x) V = V"
  by (cases V) (simp add: astype_def)

lemma assign_block_dense:
  assumes V: "has_shape T T V" and M: "has_shape R C M"
  shows "\<exists>M'. assign_block float64_of M T iO iI (Dense V) = Inr M' \<and> has_shape R C M' \<and>
    (\<forall>r < R. \<forall>c < C. at M' r c =
       (if 0 < T \<and> r div T = iO \<and> c div T = iI
        then at (astype float64_of V) (r mod T) (c mod T) else at M r c))"
proof -
  define W where "W = astype float64_of V"
  have W: "has_shape T T W" unfolding W_def by (rule has_shape_astype[OF V])
  from has_shape_rows[OF M] have l: "length (rows M) = R" and c: "ncols M = C"
    and r: "\<And>i. i < R \<Longrightarrow> length (rows M ! i) = C" by auto
  let ?M' = "Array C
     (map (\<lambda>r. if T * iO \<le> r \<and> r < T * (iO + 1)
                then map (\<lambda>c. if T * iI \<le> c \<and> c < T * (iI + 1)
                               then rows W ! (r - T * iO) ! (c - T * iI)
                               else rows M ! r ! c) [0..<C]
                else rows M ! r) [0..<R])"
  have e: "assign_block float64_of M T iO iI (Dense V) = Inr ?M'"
    by (simp add: assign_block_def W_def[symmetric] broadcast_to_same[OF W] nrows_def l c)
  have s: "has_shape R C ?M'"
    by (rule has_shapeI) (auto simp: r)
  have a: "at ?M' r c =
       (if 0 < T \<and> r div T = iO \<and> c div T = iI
        then at W (r mod T) (c mod T) else at M r c)" if rc: "r < R" "c < C" for r c
  proof -
    have "at ?M' r c =
        (if T * iO \<le> r \<and> r < T * (iO + 1)
         then (if T * iI \<le> c \<and> c < T * (iI + 1)
               then at W (r - T * iO) (c - T * iI) else at M r c)
         else at M r c)"
      using rc by (simp add: at_def)
    also have "\<dots> =
        (if 0 < T \<and> r div T = iO
         then (if 0 < T \<and> c div T = iI
               then at W (r - T * iO) (c - T * iI) else at M r c)
         else at M r c)"
      by (simp only: in_block_iff)
    also have "\<dots> = (if 0 < T \<and> r div T = iO \<and> c div T = iI
        then at W (r mod T) (c mod T) else at M r c)"
      by (auto simp: sub_block_mod)
    finally show ?thesis .
  qed
  from e s a show ?thesis unfolding W_def by blast
qed

lemma is_block_Dense: "is_block T v \<Longrightarrow> \<exists>V. v = Dense V \<and> has_shape T T V"
  by (cases v) (simp_all add: is_block_def)

lemma has_shape_np_zeros: "has_shape r c (np_zeros r c)"
  by (rule has_shapeI) (simp_all add: np_zeros_def)

lemma has_shape_np_empty: "has_shape r c (np_empty garbage r c)"
  by (rule has_shapeI) (simp_all add: np_empty_def)

text \<open>One assignment of line 102, for an entry that is an array of shape \<open>T \<times> T\<close> or is
  not there.\<close>

lemma assign_entry:
  assumes e: "case e of None \<Rightarrow> True | Some v \<Rightarrow> is_block T v" and M: "has_shape R C M"
  shows "\<exists>M'. (case e of
                 Some v \<Rightarrow> assign_block float64_of M T iO iI v
               | None \<Rightarrow> assign_block (\<lambda>x. x) M T iO iI (Dense (np_zeros T T))) = Inr M' \<and>
    has_shape R C M' \<and>
    (\<forall>r < R. \<forall>c < C. at M' r c =
       (if 0 < T \<and> r div T = iO \<and> c div T = iI
        then at (expected_block sm float64_of T e) (r mod T) (c mod T) else at M r c))"
proof (cases e)
  case None
  from assign_block_dense[OF has_shape_np_zeros[of T T] M, where float64_of = "\<lambda>x. x" and iO = iO and iI = iI]
  obtain M' where a: "assign_block (\<lambda>x. x) M T iO iI (Dense (np_zeros T T)) = Inr M'"
    and b: "has_shape R C M'"
    and c: "\<forall>r < R. \<forall>c < C. at M' r c =
       (if 0 < T \<and> r div T = iO \<and> c div T = iI
        then at (astype (\<lambda>x. x) (np_zeros T T)) (r mod T) (c mod T) else at M r c)"
    by blast
  have x: "expected_block sm float64_of T None = np_zeros T T"
    by (simp add: expected_block_def)
  show ?thesis unfolding None option.case x using a b c[unfolded astype_id] by blast
next
  case (Some v)
  with e have "is_block T v" by simp
  then obtain V where V: "v = Dense V" "has_shape T T V" using is_block_Dense by blast
  from assign_block_dense[OF V(2) M, where float64_of = float64_of and iO = iO and iI = iI]
  obtain M' where a: "assign_block float64_of M T iO iI (Dense V) = Inr M'"
    and b: "has_shape R C M'"
    and c: "\<forall>r < R. \<forall>c < C. at M' r c =
       (if 0 < T \<and> r div T = iO \<and> c div T = iI
        then at (astype float64_of V) (r mod T) (c mod T) else at M r c)"
    by blast
  have x: "expected_block sm float64_of T (Some (Dense V)) = astype float64_of V"
    by (simp add: expected_block_def make_matrix_def)
  show ?thesis unfolding Some V(1) option.case x using a b c by blast
qed

lemma has_shape_expected_block:
  assumes "case e of None \<Rightarrow> True | Some v \<Rightarrow> is_block T v"
  shows "has_shape T T (expected_block sm float64_of T e)"
proof (cases e)
  case None
  then show ?thesis by (simp add: expected_block_def has_shape_np_zeros)
next
  case (Some v)
  with assms have "is_block T v" by simp
  then obtain V where V: "v = Dense V" "has_shape T T V" using is_block_Dense by blast
  then show ?thesis by (simp add: Some expected_block_def make_matrix_def has_shape_astype)
qed

lemma fold_err_blocks:
  assumes "\<forall>iI \<in> set L. (case g iI of None \<Rightarrow> True | Some v \<Rightarrow> is_block T v)"
    and "has_shape R C M"
  shows "\<exists>M'. fold_err (\<lambda>iI outjac.
            (case g iI of
               Some v \<Rightarrow> assign_block float64_of outjac T iO iI v
             | None \<Rightarrow> assign_block (\<lambda>x. x) outjac T iO iI (Dense (np_zeros T T)))) L M = Inr M' \<and>
    has_shape R C M' \<and>
    (\<forall>r < R. \<forall>c < C. at M' r c =
       (if 0 < T \<and> r div T = iO \<and> c div T \<in> set L
        then at (expected_block sm float64_of T (g (c div T))) (r mod T) (c mod T)
        else at M r c))"
  using assms
proof (induction L arbitrary: M)
  case Nil
  then show ?case by simp
next
  case (Cons x L)
  let ?step = "\<lambda>iI outjac.
            (case g iI of
               Some v \<Rightarrow> assign_block float64_of outjac T iO iI v
             | None \<Rightarrow> assign_block (\<lambda>x. x) outjac T iO iI (Dense (np_zeros T T)))"
  from Cons.prems(1) have bx: "case g x of None \<Rightarrow> True | Some v \<Rightarrow> is_block T v" by simp
  from assign_entry[OF bx Cons.prems(2), where float64_of = float64_of and iO = iO and iI = x and sm = sm] obtain M1 where
    e1: "?step x M = Inr M1" and s1: "has_shape R C M1" and
    a1: "\<forall>r < R. \<forall>c < C. at M1 r c =
       (if 0 < T \<and> r div T = iO \<and> c div T = x
        then at (expected_block sm float64_of T (g x)) (r mod T) (c mod T) else at M r c)"
    by blast
  from Cons.prems(1) have "\<forall>iI \<in> set L. (case g iI of None \<Rightarrow> True | Some v \<Rightarrow> is_block T v)"
    by simp
  from Cons.IH[OF this s1] obtain M' where
    e2: "fold_err ?step L M1 = Inr M'" and
    s2: "has_shape R C M'" and
    a2: "\<forall>r < R. \<forall>c < C. at M' r c =
       (if 0 < T \<and> r div T = iO \<and> c div T \<in> set L
        then at (expected_block sm float64_of T (g (c div T))) (r mod T) (c mod T)
        else at M1 r c)" by blast
  have e: "fold_err ?step (x # L) M = Inr M'"
    using e1 e2 by simp
  have a: "\<forall>r < R. \<forall>c < C. at M' r c =
       (if 0 < T \<and> r div T = iO \<and> c div T \<in> set (x # L)
        then at (expected_block sm float64_of T (g (c div T))) (r mod T) (c mod T)
        else at M r c)"
  proof (intro allI impI)
    fix r c assume rc: "r < R" "c < C"
    show "at M' r c =
       (if 0 < T \<and> r div T = iO \<and> c div T \<in> set (x # L)
        then at (expected_block sm float64_of T (g (c div T))) (r mod T) (c mod T)
        else at M r c)"
      using a1[rule_format, OF rc] a2[rule_format, OF rc] by auto
  qed
  from e s2 a show ?case by blast
qed

lemma pack_row_alt:
  "pack_row float64_of jacdict inputs outputs T iO =
     fold_err (\<lambda>iI outjac.
        (case entry jacdict (outputs ! iO) (inputs ! iI) of
           Some v \<Rightarrow> assign_block float64_of outjac T iO iI v
         | None \<Rightarrow> assign_block (\<lambda>x. x) outjac T iO iI (Dense (np_zeros T T))))
       [0..<length inputs]"
  by (intro ext) (simp add: pack_row_def entry_def split: option.splits)

lemma fold_err_rows:
  assumes "\<forall>iO \<in> set LO. \<forall>iI < length inputs.
             (case entry jacdict (outputs ! iO) (inputs ! iI) of
                None \<Rightarrow> True | Some v \<Rightarrow> is_block T v)"
    and "has_shape R C M"
  shows "\<exists>M'. fold_err (pack_row float64_of jacdict inputs outputs T) LO M = Inr M' \<and>
    has_shape R C M' \<and>
    (\<forall>r < R. \<forall>c < C. at M' r c =
       (if 0 < T \<and> r div T \<in> set LO \<and> c div T < length inputs
        then at (expected_block sm float64_of T
                  (entry jacdict (outputs ! (r div T)) (inputs ! (c div T))))
               (r mod T) (c mod T)
        else at M r c))"
  using assms
proof (induction LO arbitrary: M)
  case Nil
  then show ?case by simp
next
  case (Cons x LO)
  have bx: "\<forall>iI \<in> set [0..<length inputs].
      (case entry jacdict (outputs ! x) (inputs ! iI) of None \<Rightarrow> True | Some v \<Rightarrow> is_block T v)"
    using Cons.prems(1) by simp
  from fold_err_blocks[OF bx Cons.prems(2), where float64_of = float64_of and iO = x and sm = sm] obtain M1 where
    e1: "pack_row float64_of jacdict inputs outputs T x M = Inr M1" and s1: "has_shape R C M1" and
    a1: "\<forall>r < R. \<forall>c < C. at M1 r c =
       (if 0 < T \<and> r div T = x \<and> c div T \<in> set [0..<length inputs]
        then at (expected_block sm float64_of T
                  (entry jacdict (outputs ! x) (inputs ! (c div T))))
               (r mod T) (c mod T)
        else at M r c)"
    unfolding pack_row_alt by blast
  have "\<forall>iO \<in> set LO. \<forall>iI < length inputs.
      (case entry jacdict (outputs ! iO) (inputs ! iI) of None \<Rightarrow> True | Some v \<Rightarrow> is_block T v)"
    using Cons.prems(1) by simp
  from Cons.IH[OF this s1] obtain M' where
    e2: "fold_err (pack_row float64_of jacdict inputs outputs T) LO M1 = Inr M'" and
    s2: "has_shape R C M'" and
    a2: "\<forall>r < R. \<forall>c < C. at M' r c =
       (if 0 < T \<and> r div T \<in> set LO \<and> c div T < length inputs
        then at (expected_block sm float64_of T
                  (entry jacdict (outputs ! (r div T)) (inputs ! (c div T))))
               (r mod T) (c mod T)
        else at M1 r c)" by blast
  have e: "fold_err (pack_row float64_of jacdict inputs outputs T) (x # LO) M = Inr M'"
    by (simp add: e1 e2)
  have a: "\<forall>r < R. \<forall>c < C. at M' r c =
       (if 0 < T \<and> r div T \<in> set (x # LO) \<and> c div T < length inputs
        then at (expected_block sm float64_of T
                  (entry jacdict (outputs ! (r div T)) (inputs ! (c div T))))
               (r mod T) (c mod T)
        else at M r c)"
  proof (intro allI impI)
    fix r c assume rc: "r < R" "c < C"
    show "at M' r c =
       (if 0 < T \<and> r div T \<in> set (x # LO) \<and> c div T < length inputs
        then at (expected_block sm float64_of T
                  (entry jacdict (outputs ! (r div T)) (inputs ! (c div T))))
               (r mod T) (c mod T)
        else at M r c)"
      using a1[rule_format, OF rc] a2[rule_format, OF rc] by auto
  qed
  from e s2 a show ?case by blast
qed

lemma slice_block_eq:
  assumes M: "has_shape R C M" and V: "has_shape T T V"
    and rb: "T * (iO + 1) \<le> R" and cb: "T * (iI + 1) \<le> C"
    and a: "\<And>r c. r < T \<Longrightarrow> c < T \<Longrightarrow> at M (T * iO + r) (T * iI + c) = at V r c"
  shows "slice_block M T iO iI = V"
proof -
  from has_shape_rows[OF M] have l: "length (rows M) = R" and c: "ncols M = C"
    and r: "\<And>i. i < R \<Longrightarrow> length (rows M ! i) = C" by auto
  from has_shape_rows[OF V] have lV: "length (rows V) = T" and cV: "ncols V = T"
    and rV: "\<And>i. i < T \<Longrightarrow> length (rows V ! i) = T" by auto
  from rb have rb': "T * iO + T \<le> R" by simp
  from cb have cb': "T * iI + T \<le> C" by simp
  have nc: "min T (ncols M - T * iI) = T" using cb' c by simp
  have rows_eq: "map (\<lambda>row. take T (drop (T * iI) row)) (take T (drop (T * iO) (rows M))) = rows V"
  proof (rule nth_equalityI)
    show "length (map (\<lambda>row. take T (drop (T * iI) row)) (take T (drop (T * iO) (rows M)))) =
        length (rows V)"
      using rb' l lV by simp
  next
    fix i assume "i < length (map (\<lambda>row. take T (drop (T * iI) row)) (take T (drop (T * iO) (rows M))))"
    then have i: "i < T" by simp
    then have iR: "T * iO + i < R" using rb' by simp
    have row: "map (\<lambda>row. take T (drop (T * iI) row)) (take T (drop (T * iO) (rows M))) ! i =
        take T (drop (T * iI) (rows M ! (T * iO + i)))"
      using i rb' l by simp
    have "take T (drop (T * iI) (rows M ! (T * iO + i))) = rows V ! i"
    proof (rule nth_equalityI)
      show "length (take T (drop (T * iI) (rows M ! (T * iO + i)))) = length (rows V ! i)"
        using r[OF iR] rV[OF i] cb' by simp
    next
      fix j assume "j < length (take T (drop (T * iI) (rows M ! (T * iO + i))))"
      then have j: "j < T" by simp
      have "take T (drop (T * iI) (rows M ! (T * iO + i))) ! j = rows M ! (T * iO + i) ! (T * iI + j)"
        using j r[OF iR] cb' by simp
      also have "\<dots> = rows V ! i ! j" using a[OF i j] by (simp add: at_def)
      finally show "take T (drop (T * iI) (rows M ! (T * iO + i))) ! j = rows V ! i ! j" .
    qed
    with row show "map (\<lambda>row. take T (drop (T * iI) row)) (take T (drop (T * iO) (rows M))) ! i =
        rows V ! i" by simp
  qed
  have "slice_block M T iO iI = Array T (rows V)"
    by (simp add: slice_block_def nc rows_eq)
  also have "\<dots> = V" using cV by (cases V) simp
  finally show ?thesis .
qed

lemma dense_blocks_is_block:
  assumes "dense_blocks T jacdict inputs outputs" and "iO < length outputs" and "iI < length inputs"
  shows "case entry jacdict (outputs ! iO) (inputs ! iI) of None \<Rightarrow> True | Some v \<Rightarrow> is_block T v"
  using assms by (simp add: dense_blocks_def list_all_length)

lemma div_mod_block: "0 < T \<Longrightarrow> r < T \<Longrightarrow> (T * i + r) div T = i \<and> (T * i + r) mod T = (r::nat)"
  by simp

lemma pack_jacobians_blocks:
  assumes d: "dense_blocks T jacdict inputs outputs"
  shows "\<exists>M. pack_jacobians float64_of garbage jacdict inputs outputs T = Inr M \<and>
    has_shape (length outputs * T) (length inputs * T) M \<and>
    (\<forall>iO < length outputs. \<forall>iI < length inputs.
       slice_block M T iO iI =
         expected_block sm float64_of T (entry jacdict (outputs ! iO) (inputs ! iI)))"
proof -
  let ?R = "length outputs * T" and ?C = "length inputs * T"
  have b: "\<forall>iO \<in> set [0..<length outputs]. \<forall>iI < length inputs.
      (case entry jacdict (outputs ! iO) (inputs ! iI) of None \<Rightarrow> True | Some v \<Rightarrow> is_block T v)"
    using dense_blocks_is_block[OF d] by simp
  have s0: "has_shape ?R ?C (np_empty garbage ?R ?C)" by (rule has_shape_np_empty)
  from fold_err_rows[OF b s0, where sm = sm and float64_of = float64_of] obtain M where
    e: "fold_err (pack_row float64_of jacdict inputs outputs T) [0..<length outputs]
          (np_empty garbage ?R ?C) = Inr M"
    and s: "has_shape ?R ?C M"
    and a: "\<forall>r < ?R. \<forall>c < ?C. at M r c =
       (if 0 < T \<and> r div T \<in> set [0..<length outputs] \<and> c div T < length inputs
        then at (expected_block sm float64_of T
                  (entry jacdict (outputs ! (r div T)) (inputs ! (c div T))))
               (r mod T) (c mod T)
        else at (np_empty garbage ?R ?C) r c)" by blast
  have p: "pack_jacobians float64_of garbage jacdict inputs outputs T = Inr M"
    by (simp add: pack_jacobians_def e)
  have sl: "slice_block M T iO iI =
      expected_block sm float64_of T (entry jacdict (outputs ! iO) (inputs ! iI))"
    if io: "iO < length outputs" and ii: "iI < length inputs" for iO iI
  proof -
    have V: "has_shape T T
        (expected_block sm float64_of T (entry jacdict (outputs ! iO) (inputs ! iI)))"
      by (rule has_shape_expected_block[OF dense_blocks_is_block[OF d io ii]])
    have rb: "T * (iO + 1) \<le> ?R"
    proof -
      have "(iO + 1) * T \<le> length outputs * T" using io by (intro mult_le_mono1) simp
      then show ?thesis by (simp add: mult.commute)
    qed
    have cb: "T * (iI + 1) \<le> ?C"
    proof -
      have "(iI + 1) * T \<le> length inputs * T" using ii by (intro mult_le_mono1) simp
      then show ?thesis by (simp add: mult.commute)
    qed
    show ?thesis
    proof (rule slice_block_eq[OF s V rb cb])
      fix r c assume rc: "r < T" "c < T"
      then have T: "0 < T" by simp
      have r: "T * iO + r < ?R" using rb rc by simp
      have c: "T * iI + c < ?C" using cb rc by simp
      show "at M (T * iO + r) (T * iI + c) =
          at (expected_block sm float64_of T (entry jacdict (outputs ! iO) (inputs ! iI))) r c"
        using a[rule_format, OF r c] div_mod_block[OF T rc(1), of iO] div_mod_block[OF T rc(2), of iI]
          io ii T
        by simp
    qed
  qed
  from p s sl show ?thesis by blast
qed


lemma map_of_fold_update_index:
  "map_of (fold (\<lambda>x acc. AList.update (f x) (g x) acc) L acc0) k =
     (if k \<in> f ` set L then Some (g (last (filter (\<lambda>x. f x = k) L))) else map_of acc0 k)"
proof (induction L arbitrary: acc0)
  case Nil
  show ?case by simp
next
  case (Cons x L)
  show ?case
  proof (cases "k \<in> f ` set L")
    case True
    then have "filter (\<lambda>x. f x = k) L \<noteq> []" by (auto simp: filter_empty_conv)
    then show ?thesis using True by (simp add: Cons.IH)
  next
    case False
    then have "filter (\<lambda>x. f x = k) L = []" by (auto simp: filter_empty_conv)
    then show ?thesis using False by (auto simp: Cons.IH update_conv')
  qed
qed

lemma last_filter_index:
  assumes "k \<in> set xs"
  shows "last (filter (\<lambda>i. xs ! i = k) [0..<length xs]) < length xs \<and>
         xs ! (last (filter (\<lambda>i. xs ! i = k) [0..<length xs])) = k"
proof -
  from assms obtain i where "i < length xs" "xs ! i = k" by (auto simp: in_set_conv_nth)
  then have m: "i \<in> set (filter (\<lambda>i. xs ! i = k) [0..<length xs])" by simp
  have ne: "filter (\<lambda>i. xs ! i = k) [0..<length xs] \<noteq> []"
  proof
    assume "filter (\<lambda>i. xs ! i = k) [0..<length xs] = []"
    with m show False by simp
  qed
  from last_in_set[OF ne] show ?thesis by simp
qed

lemma image_nth_upt: "(!) xs ` {0..<length xs} = set xs"
  by (metis map_nth set_map set_upt)

lemma entry_unpack_jacobians:
  "entry (unpack_jacobians M inputs outputs T) out inp =
     (if out \<in> set outputs \<and> inp \<in> set inputs
      then Some (Dense (slice_block M T
             (last (filter (\<lambda>i. outputs ! i = out) [0..<length outputs]))
             (last (filter (\<lambda>i. inputs ! i = inp) [0..<length inputs]))))
      else None)"
  by (simp add: entry_def unpack_jacobians_def map_of_fold_update_index image_nth_upt)

lemma dom_unpack_jacobians: "fst ` set (unpack_jacobians M inputs outputs T) = set outputs"
proof -
  have "dom (map_of (unpack_jacobians M inputs outputs T)) = set outputs"
    by (auto simp: unpack_jacobians_def map_of_fold_update_index image_nth_upt dom_def
        split: if_splits)
  then show ?thesis by (simp add: dom_map_of_conv_image_fst)
qed

text \<open>
  What \<^verbatim>\<open>pack_jacobians\<close> does with arrays.  When every entry of the Jacobian dictionary
  at a listed output and a listed input is an array of shape \<open>T \<times> T\<close>, it returns a
  matrix of shape \<open>(nO \<cdot> T) \<times> (nI \<cdot> T)\<close>, whatever \<^verbatim>\<open>np.empty\<close> found in memory, whose
  block \<open>(o, i)\<close> holds the numbers of \<open>jacdict[o][i]\<close> converted to \<^verbatim>\<open>float64\<close> when the
  entry is there (for an array, \<^verbatim>\<open>make_matrix\<close> is the array itself), and is the
  \<open>T \<times> T\<close> zero block when it is not.
\<close>

lemma pack_jacobians_arrays:
  assumes "dense_blocks T jacdict inputs outputs"
    and "iO < length outputs" and "iI < length inputs"
  shows "\<exists>M. pack_jacobians float64_of garbage jacdict inputs outputs T = Inr M \<and>
    has_shape (length outputs * T) (length inputs * T) M \<and>
    slice_block M T iO iI =
      (case entry jacdict (outputs ! iO) (inputs ! iI) of
         Some v \<Rightarrow> astype float64_of (make_matrix sparse_matrix v T)
       | None \<Rightarrow> np_zeros T T)"
proof -
  from pack_jacobians_blocks[OF assms(1), where sm = sparse_matrix and garbage = garbage
      and float64_of = float64_of]
  obtain M where
    p: "pack_jacobians float64_of garbage jacdict inputs outputs T = Inr M" and
    s: "has_shape (length outputs * T) (length inputs * T) M" and
    b: "\<forall>iO < length outputs. \<forall>iI < length inputs.
       slice_block M T iO iI =
         expected_block sparse_matrix float64_of T (entry jacdict (outputs ! iO) (inputs ! iI))"
    by blast
  from b assms(2,3) have "slice_block M T iO iI =
      expected_block sparse_matrix float64_of T (entry jacdict (outputs ! iO) (inputs ! iI))"
    by simp
  with p s show ?thesis by (simp add: expected_block_def)
qed

text \<open>
  The round trip on such a dictionary: \<^verbatim>\<open>pack_jacobians\<close> returns, and
  \<^verbatim>\<open>unpack_jacobians\<close> of its result has exactly the listed outputs as keys and, at every
  pair of a listed output and a listed input, the numbers of the block of \<open>J\<close> converted
  to \<^verbatim>\<open>float64\<close> when \<open>J\<close> has the pair and the \<open>T \<times> T\<close> zero matrix when it has not; a
  pair outside the lists has no entry.
\<close>

lemma unpack_pack_arrays:
  assumes "dense_blocks T jacdict inputs outputs"
  shows "\<exists>J'. unpack_pack float64_of garbage jacdict inputs outputs T = Inr J' \<and>
    fst ` set J' = set outputs \<and>
    entry J' out inp =
      (if out \<in> set outputs \<and> inp \<in> set inputs
       then Some (Dense (expected_block sparse_matrix float64_of T (entry jacdict out inp)))
       else None)"
proof -
  from pack_jacobians_blocks[OF assms, where sm = sparse_matrix and garbage = garbage
      and float64_of = float64_of]
  obtain M where
    p: "pack_jacobians float64_of garbage jacdict inputs outputs T = Inr M" and
    b: "\<forall>iO < length outputs. \<forall>iI < length inputs.
       slice_block M T iO iI =
         expected_block sparse_matrix float64_of T (entry jacdict (outputs ! iO) (inputs ! iI))"
    by blast
  have u: "unpack_pack float64_of garbage jacdict inputs outputs T =
      Inr (unpack_jacobians M inputs outputs T)"
    by (simp add: unpack_pack_def p)
  have e: "entry (unpack_jacobians M inputs outputs T) out inp =
      (if out \<in> set outputs \<and> inp \<in> set inputs
       then Some (Dense (expected_block sparse_matrix float64_of T (entry jacdict out inp)))
       else None)"
  proof (cases "out \<in> set outputs \<and> inp \<in> set inputs")
    case False
    show ?thesis by (simp only: entry_unpack_jacobians if_not_P[OF False])
  next
    case True
    let ?iO = "last (filter (\<lambda>i. outputs ! i = out) [0..<length outputs])"
    let ?iI = "last (filter (\<lambda>i. inputs ! i = inp) [0..<length inputs])"
    from True last_filter_index[of out outputs] last_filter_index[of inp inputs]
    have io: "?iO < length outputs" "outputs ! ?iO = out"
      and ii: "?iI < length inputs" "inputs ! ?iI = inp" by auto
    have "slice_block M T ?iO ?iI =
        expected_block sparse_matrix float64_of T (entry jacdict out inp)"
      using b[rule_format, OF io(1) ii(1)] io(2) ii(2) by simp
    then show ?thesis using True by (simp add: entry_unpack_jacobians)
  qed
  from u e dom_unpack_jacobians[of M inputs outputs T] show ?thesis by simp
qed

text \<open>
  When the arrays of \<open>J\<close> are \<^verbatim>\<open>float64\<close> arrays, the conversion is the identity and the
  round trip gives every block of \<open>J\<close> back as it is.
\<close>

lemma unpack_pack_float64_arrays:
  fixes jacdict :: "('f :: zero_neq_one) operator jacdict"
  assumes "dense_blocks T jacdict inputs outputs"
  shows "\<exists>J'. unpack_pack (\<lambda>x. x) garbage jacdict inputs outputs T = Inr J' \<and>
    fst ` set J' = set outputs \<and>
    entry J' out inp =
      (if out \<in> set outputs \<and> inp \<in> set inputs
       then Some (case entry jacdict out inp of Some v \<Rightarrow> v | None \<Rightarrow> Dense (np_zeros T T))
       else None)"
proof -
  from unpack_pack_arrays[OF assms, where float64_of = "\<lambda>x. x" and garbage = garbage and out = out and inp = inp
      and sparse_matrix = "\<lambda>els T. np_zeros T T"]
  obtain J' where
    u: "unpack_pack (\<lambda>x. x) garbage jacdict inputs outputs T = Inr J'" and
    k: "fst ` set J' = set outputs" and
    e: "entry J' out inp =
      (if out \<in> set outputs \<and> inp \<in> set inputs
       then Some (Dense (expected_block (\<lambda>els T. np_zeros T T) (\<lambda>x. x) T (entry jacdict out inp)))
       else None)"
    by blast
  have "Dense (expected_block (\<lambda>els T. np_zeros T T) (\<lambda>x. x) T (entry jacdict out inp)) =
      (case entry jacdict out inp of Some v \<Rightarrow> v | None \<Rightarrow> Dense (np_zeros T T))"
    if t: "out \<in> set outputs \<and> inp \<in> set inputs"
  proof (cases "entry jacdict out inp")
    case None
    then show ?thesis by (simp add: expected_block_def)
  next
    case (Some v)
    from t obtain iO iI where io: "iO < length outputs" "outputs ! iO = out"
      and ii: "iI < length inputs" "inputs ! iI = inp"
      by (auto simp: in_set_conv_nth)
    from dense_blocks_is_block[OF assms io(1) ii(1)] Some io(2) ii(2)
    have "is_block T v" by simp
    then obtain V where "v = Dense V" using is_block_Dense by blast
    then show ?thesis by (simp add: Some expected_block_def make_matrix_def astype_id)
  qed
  with u k e show ?thesis by auto
qed

text \<open>
  An instance over the integers: a block of small integers and a block that is not there,
  and an integer that is no \<^verbatim>\<open>float64\<close> number, which the assignment rounds.
\<close>

lemma example_dense: "dense_blocks 2 example_jacdict [''x'', ''w''] [''y'']"
  by code_simp

lemma example_pack:
  "pack_jacobians float64_of_int64 example_garbage example_jacdict [''x'', ''w''] [''y''] 2 =
     Inr (Array 4 [[1, 2, 0, 0], [3, 4, 0, 0]])"
  by code_simp

lemma example_unpack_pack:
  "unpack_pack float64_of_int64 example_garbage example_jacdict [''x'', ''w''] [''y''] 2 =
     Inr [(''y'', [(''x'', Dense (Array 2 [[1, 2], [3, 4]])),
                   (''w'', Dense (Array 2 [[0, 0], [0, 0]]))])]"
  by code_simp

lemma example_pack_rounds:
  "pack_jacobians float64_of_int64 example_garbage
     [(''y'', [(''x'', Dense (Array 1 [[9007199254740993]]))])] [''x''] [''y''] 1 =
     Inr (Array 1 [[9007199254740992]])"
  by code_simp

lemma example_float64_of_int64:
  "float64_of_int64 (2 ^ 53) = 2 ^ 53 \<and>
   float64_of_int64 (2 ^ 53 + 1) = 2 ^ 53 \<and>
   float64_of_int64 (2 ^ 53 + 2) = 2 ^ 53 + 2 \<and>
   float64_of_int64 (2 ^ 53 + 3) = 2 ^ 53 + 4 \<and>
   float64_of_int64 (- (2 ^ 53) - 1) = - (2 ^ 53) \<and>
   float64_of_int64 (2 ^ 63 - 1) = 2 ^ 63 \<and>
   float64_of_int64 (- 7) = - 7"
  by code_simp

section \<open>Packing operators that are no arrays\<close>

text \<open>
  Claim C7.  The claim has the block \<open>(o, i)\<close> of the packed matrix equal to the dense
  \<open>T \<times> T\<close> matrix of \<open>jacdict[o][i]\<close> also when the entry is an identity operator.
  \<^verbatim>\<open>chain_jacobians\<close> with no block returns the dictionary \<^verbatim>\<open>{'x': {'x': IdentityMatrix()}}\<close>
  (line 59).  On this dictionary, with \<open>T = 2\<close>, \<^verbatim>\<open>pack_jacobians\<close> raises \<^verbatim>\<open>TypeError\<close> in
  the assignment of line 102, for every conversion to \<^verbatim>\<open>float64\<close> and whatever
  \<^verbatim>\<open>np.empty\<close> found in memory, and returns no matrix at all; the block of the claim is
  the \<open>2 \<times> 2\<close> identity matrix, which \<^verbatim>\<open>make_matrix\<close> (lines 148--155) makes of the entry
  and which \<^verbatim>\<open>pack_jacobians\<close> lays once the entry has been through \<^verbatim>\<open>make_matrix\<close>.
\<close>

theorem pack_jacobians_identity_entry:
  "chain_jacobians matmul add [] [''x''] 2 = [(''x'', [(''x'', IdentityMatrix)])] \<and>
   pack_jacobians float64_of garbage (chain_jacobians matmul add [] [''x''] 2) [''x''] [''x''] 2 =
     Inl TypeError \<and>
   make_matrix sparse_matrix IdentityMatrix 2 = Array 2 [[1, 0], [0, 1]] \<and>
   pack_jacobians (\<lambda>x. x) garbage
     [(''x'', [(''x'', Dense (make_matrix sparse_matrix IdentityMatrix 2))])] [''x''] [''x''] 2 =
     Inr (Array 2 [[1, 0], [0, 1]])"
  by (simp add: chain_jacobians_def identity_jacdict_def pack_jacobians_def pack_row_def
      assign_block_def make_matrix_def IdentityMatrix_matrix_def np_eye_def np_empty_def
      broadcast_to_def astype_def nrows_def numeral_2_eq_2)

text \<open>
  Claim C8.  The claim has the round trip return, for every Jacobian dictionary, the
  dictionary of the \<open>T \<times> T\<close> blocks.  On the dictionary
  \<^verbatim>\<open>{'x': {'x': IdentityMatrix()}}\<close> that \<^verbatim>\<open>chain_jacobians\<close> returns for no block, with
  \<open>T = 2\<close>, the inner call \<^verbatim>\<open>pack_jacobians\<close> raises \<^verbatim>\<open>TypeError\<close> (line 102) and the
  round trip returns nothing; the dictionary of the claim, with the \<open>2 \<times> 2\<close> identity
  matrix at \<open>x\<close> and \<open>x\<close>, is what the round trip returns once the entry has been through
  \<^verbatim>\<open>make_matrix\<close>.
\<close>

theorem unpack_pack_identity_entry:
  "unpack_pack float64_of garbage [(''x'', [(''x'', IdentityMatrix)])] [''x''] [''x''] 2 =
     Inl TypeError \<and>
   unpack_pack (\<lambda>x. x) garbage
     [(''x'', [(''x'', Dense (make_matrix sparse_matrix IdentityMatrix 2))])] [''x''] [''x''] 2 =
     Inr [(''x'', [(''x'', Dense (Array 2 [[1, 0], [0, 1]]))])]"
  by (simp add: unpack_pack_def unpack_jacobians_def slice_block_def pack_jacobians_def
      pack_row_def assign_block_def make_matrix_def IdentityMatrix_matrix_def np_eye_def
      np_empty_def broadcast_to_def astype_def nrows_def numeral_2_eq_2)

section \<open>Copies of the identity\<close>

lemma deepcopy_is_deep_copy: "other < length h \<Longrightarrow> is_deep_copy h other (deepcopy h other)"
  by (simp add: is_deep_copy_def deepcopy_def nth_append)

lemma deep_copy_independent:
  assumes "is_deep_copy h other (h', r)" and "other < length h"
  shows "(h'[r := v]) ! other = h ! other \<and> (h'[other := v]) ! r = h ! other"
proof -
  from assms have r: "r < length h'" "h' ! r = h ! other" "r \<noteq> other" "take (length h) h' = h"
    by (simp_all add: is_deep_copy_def)
  have "h' ! other = take (length h) h' ! other" using assms(2) by simp
  then have "h' ! other = h ! other" by (simp add: r(4))
  then show ?thesis using r by simp
qed

lemma at_np_eye: "i < T \<Longrightarrow> j < T \<Longrightarrow> at (np_eye T) i j = (if i = j then 1 else 0)"
  by (simp add: at_def np_eye_def)

lemma has_shape_np_eye: "has_shape T T (np_eye T)"
  by (rule has_shapeI) (simp_all add: np_eye_def)

text \<open>
  Claim C9.  For every operator object \<open>X\<close> of the store (\<^verbatim>\<open>other\<close>) and every horizon
  \<open>T\<close>: \<^verbatim>\<open>__matmul__\<close> and \<^verbatim>\<open>__rmatmul__\<close> of the identity return a deep copy of \<open>X\<close>, an
  object with the value of \<open>X\<close> at an address that \<open>X\<close> does not have, so that writing to
  the copy leaves \<open>X\<close> as it was and writing to \<open>X\<close> leaves the copy as it was; and
  \<^verbatim>\<open>matrix(T)\<close> of the identity has shape \<open>T \<times> T\<close> with \<open>1\<close> on the diagonal and \<open>0\<close>
  elsewhere.
\<close>

theorem identity_compose_copy:
  fixes h :: "('a :: zero_neq_one) store"
  assumes "other < length h"
  shows "is_deep_copy h other (IdentityMatrix_matmul_store h self other) \<and>
    is_deep_copy h other (IdentityMatrix_rmatmul_store h self other) \<and>
    list_update (fst (IdentityMatrix_matmul_store h self other))
       (snd (IdentityMatrix_matmul_store h self other)) v ! other = h ! other \<and>
    list_update (fst (IdentityMatrix_matmul_store h self other)) other v
       ! snd (IdentityMatrix_matmul_store h self other) = h ! other \<and>
    list_update (fst (IdentityMatrix_rmatmul_store h self other))
       (snd (IdentityMatrix_rmatmul_store h self other)) v ! other = h ! other \<and>
    list_update (fst (IdentityMatrix_rmatmul_store h self other)) other v
       ! snd (IdentityMatrix_rmatmul_store h self other) = h ! other \<and>
    IdentityMatrix_matmul (h ! other) = h ! other \<and>
    IdentityMatrix_rmatmul (h ! other) = h ! other \<and>
    has_shape T T (IdentityMatrix_matrix T :: ('a :: zero_neq_one) ndarray) \<and>
    (if i < T \<and> j < T
     then at (IdentityMatrix_matrix T :: 'a ndarray) i j = (if i = j then 1 else 0)
     else True)"
proof -
  have d: "is_deep_copy h other (deepcopy h other)"
    by (rule deepcopy_is_deep_copy[OF assms])
  have i: "list_update (fst (deepcopy h other)) (snd (deepcopy h other)) v ! other = h ! other \<and>
      list_update (fst (deepcopy h other)) other v ! snd (deepcopy h other) = h ! other"
    using deep_copy_independent[of h other "fst (deepcopy h other)" "snd (deepcopy h other)" v]
      d assms by simp
  show ?thesis
    using d i
    by (simp add: IdentityMatrix_matmul_store_def IdentityMatrix_rmatmul_store_def
        IdentityMatrix_matmul_def IdentityMatrix_rmatmul_def IdentityMatrix_matrix_def
        has_shape_np_eye at_np_eye)
qed

theorem identity_compose_copy_witness:
  "(0::nat) < length [Dense (Array 1 [[5 :: int]])] \<and>
   IdentityMatrix_matmul_store [Dense (Array 1 [[5 :: int]])] 7 0 =
     ([Dense (Array 1 [[5]]), Dense (Array 1 [[5]])], 1) \<and>
   is_deep_copy [Dense (Array 1 [[5 :: int]])] 0
     (IdentityMatrix_matmul_store [Dense (Array 1 [[5 :: int]])] 7 0) \<and>
   at (IdentityMatrix_matrix 2 :: int ndarray) 0 0 = 1 \<and>
   at (IdentityMatrix_matrix 2 :: int ndarray) 0 1 = 0"
proof -
  have l: "(0::nat) < length [Dense (Array 1 [[5 :: int]])]" by simp
  have e: "IdentityMatrix_matmul_store [Dense (Array 1 [[5 :: int]])] 7 0 =
     ([Dense (Array 1 [[5]]), Dense (Array 1 [[5]])], 1)"
    by (simp add: IdentityMatrix_matmul_store_def deepcopy_def)
  from identity_compose_copy [OF l, of 7 IdentityMatrix 2 0 0]
    identity_compose_copy [OF l, of 7 IdentityMatrix 2 0 1] e l
  show ?thesis by simp
qed

section \<open>The frame of the evaluation mode\<close>

lemma take_eq_length: "take n xs = ys \<Longrightarrow> length ys = n \<Longrightarrow> n \<le> length xs"
  by (metis length_take min.cobounded1 min_def nat_le_linear)

lemma preserves_lengths:
  "preserves h h' \<Longrightarrow> length (dicts h) \<le> length (dicts h') \<and> length (objs h) \<le> length (objs h')"
  by (auto simp: preserves_def intro: take_eq_length)

lemma preserves_refl: "preserves h h"
  by (simp add: preserves_def)

lemma preserves_alloc_obj: "preserves h h' \<Longrightarrow> preserves h (fst (alloc_obj v h'))"
  using preserves_lengths[of h h'] by (simp add: preserves_def alloc_obj_def)

lemma preserves_alloc_dict: "preserves h h' \<Longrightarrow> preserves h (fst (alloc_dict d h'))"
  using preserves_lengths[of h h'] by (simp add: preserves_def alloc_dict_def)

lemma preserves_set_dict:
  "preserves h h' \<Longrightarrow> length (dicts h) \<le> d \<Longrightarrow>
   preserves h (h'\<lparr>dicts := list_update (dicts h') d x\<rparr>)"
  by (simp add: preserves_def)

lemma preserves_set_obj:
  "preserves h h' \<Longrightarrow> length (objs h) \<le> a \<Longrightarrow>
   preserves h (h'\<lparr>objs := list_update (objs h') a x\<rparr>)"
  by (simp add: preserves_def)

lemma list_all_update:
  "list_all (\<lambda>(k, a). P a) d \<Longrightarrow> P r \<Longrightarrow> list_all (\<lambda>(k, a). P a) (AList.update key r d)"
  by (induction d) auto

lemma apply_inner_step_store_inv:
  assumes "preserves h0 h" and "fresh_dict h0 outdict h"
  shows "preserves h0 (apply_inner_step_store matvec vadd inplace indict outdict myout p h) \<and>
         fresh_dict h0 outdict (apply_inner_step_store matvec vadd inplace indict outdict myout p h)"
proof -
  obtain myin jac where p: "p = (myin, jac)" by (cases p)
  from assms(2) have od: "length (dicts h0) \<le> outdict" "outdict < length (dicts h)"
    and bs: "list_all (\<lambda>(k, a). length (objs h0) \<le> a) (dicts h ! outdict)"
    by (simp_all add: fresh_dict_def)
  from preserves_lengths[OF assms(1)] have lo: "length (objs h0) \<le> length (objs h)" by simp
  show ?thesis
  proof (cases "map_of (dicts h ! indict) myin")
    case None
    then show ?thesis using assms by (simp add: apply_inner_step_store_def p)
  next
    case (Some x)
    let ?h1 = "h\<lparr>objs := objs h @ [matvec jac (objs h ! x)]\<rparr>"
    let ?tmp = "length (objs h)"
    have a1: "alloc_obj (matvec jac (objs h ! x)) h = (?h1, ?tmp)" by (simp add: alloc_obj_def)
    have p1: "preserves h0 ?h1" using preserves_alloc_obj[OF assms(1), of "matvec jac (objs h ! x)"]
      by (simp add: alloc_obj_def)
    have d1: "dicts ?h1 = dicts h" by simp
    show ?thesis
    proof (cases "map_of (dicts h ! outdict) myout")
      case None
      have r: "apply_inner_step_store matvec vadd inplace indict outdict myout p h =
          set_item outdict myout ?tmp ?h1"
        by (simp add: apply_inner_step_store_def p Some a1 None)
      have "preserves h0 (set_item outdict myout ?tmp ?h1)"
        unfolding set_item_def by (rule preserves_set_dict[OF p1 od(1)])
      moreover have "fresh_dict h0 outdict (set_item outdict myout ?tmp ?h1)"
        using od bs lo by (simp add: fresh_dict_def set_item_def list_all_update)
      ultimately show ?thesis by (simp add: r)
    next
      case (Some cur)
      from map_of_SomeD[OF Some] bs have cur: "length (objs h0) \<le> cur"
        by (auto simp: list_all_iff)
      show ?thesis
      proof (cases "inplace (objs ?h1 ! cur)")
        case True
        let ?h2 = "?h1\<lparr>objs := list_update (objs ?h1) cur (vadd (objs ?h1 ! cur) (objs ?h1 ! ?tmp))\<rparr>"
        have i: "iadd inplace vadd cur ?tmp ?h1 = (?h2, cur)" using True by (simp add: iadd_def)
        have r: "apply_inner_step_store matvec vadd inplace indict outdict myout p h =
            set_item outdict myout cur ?h2"
          using \<open>map_of (dicts h ! indict) myin = Some x\<close>
          by (simp add: apply_inner_step_store_def p a1 Some i)
        have p2: "preserves h0 ?h2" by (rule preserves_set_obj[OF p1 cur])
        have "preserves h0 (set_item outdict myout cur ?h2)"
          unfolding set_item_def by (rule preserves_set_dict[OF p2 od(1)])
        moreover have "fresh_dict h0 outdict (set_item outdict myout cur ?h2)"
          using od bs cur by (simp add: fresh_dict_def set_item_def list_all_update)
        ultimately show ?thesis by (simp add: r)
      next
        case False
        let ?v = "vadd (objs ?h1 ! cur) (objs ?h1 ! ?tmp)"
        let ?h2 = "?h1\<lparr>objs := objs ?h1 @ [?v]\<rparr>"
        let ?r = "length (objs ?h1)"
        have i: "iadd inplace vadd cur ?tmp ?h1 = (?h2, ?r)"
          using False by (simp add: iadd_def alloc_obj_def)
        have r: "apply_inner_step_store matvec vadd inplace indict outdict myout p h =
            set_item outdict myout ?r ?h2"
          using \<open>map_of (dicts h ! indict) myin = Some x\<close>
          by (simp add: apply_inner_step_store_def p a1 Some i)
        have p2: "preserves h0 ?h2" using preserves_alloc_obj[OF p1, of ?v]
          by (simp add: alloc_obj_def)
        have "preserves h0 (set_item outdict myout ?r ?h2)"
          unfolding set_item_def by (rule preserves_set_dict[OF p2 od(1)])
        moreover have "fresh_dict h0 outdict (set_item outdict myout ?r ?h2)"
          using od bs lo by (simp add: fresh_dict_def set_item_def list_all_update)
        ultimately show ?thesis by (simp add: r)
      qed
    qed
  qed
qed


lemma apply_inner_fold_inv:
  assumes "preserves h0 h" and "fresh_dict h0 outdict h"
  shows "preserves h0 (fold (apply_inner_step_store matvec vadd inplace indict outdict myout) inner h) \<and>
         fresh_dict h0 outdict
           (fold (apply_inner_step_store matvec vadd inplace indict outdict myout) inner h)"
  using assms
proof (induction inner arbitrary: h)
  case Nil
  then show ?case by simp
next
  case (Cons p ps)
  from apply_inner_step_store_inv[OF Cons.prems, of matvec vadd inplace indict myout p]
  have "preserves h0 (apply_inner_step_store matvec vadd inplace indict outdict myout p h)"
    and "fresh_dict h0 outdict (apply_inner_step_store matvec vadd inplace indict outdict myout p h)"
    by simp_all
  from Cons.IH[OF this] show ?case by simp
qed

lemma apply_outer_fold_inv:
  assumes "preserves h0 h" and "fresh_dict h0 outdict h"
  shows "preserves h0 (fold (\<lambda>(myout, innerjacdict) h.
            fold (apply_inner_step_store matvec vadd inplace indict outdict myout)
              innerjacdict h) jacdict h) \<and>
         fresh_dict h0 outdict (fold (\<lambda>(myout, innerjacdict) h.
            fold (apply_inner_step_store matvec vadd inplace indict outdict myout)
              innerjacdict h) jacdict h)"
  using assms
proof (induction jacdict arbitrary: h)
  case Nil
  then show ?case by simp
next
  case (Cons p ps)
  obtain myout inner where p: "p = (myout, inner)" by (cases p)
  from apply_inner_fold_inv[OF Cons.prems, of matvec vadd inplace indict myout inner]
  have "preserves h0 (fold (apply_inner_step_store matvec vadd inplace indict outdict myout) inner h)"
    and "fresh_dict h0 outdict
           (fold (apply_inner_step_store matvec vadd inplace indict outdict myout) inner h)"
    by simp_all
  from Cons.IH[OF this] show ?case by (simp add: p)
qed

lemma apply_jacobians_store_inv:
  assumes "preserves h0 h"
  shows "preserves h0 (fst (apply_jacobians_store matvec vadd inplace jacdict indict h)) \<and>
         length (dicts h0) \<le> snd (apply_jacobians_store matvec vadd inplace jacdict indict h)"
proof -
  let ?h1 = "h\<lparr>dicts := dicts h @ [[]]\<rparr>"
  let ?od = "length (dicts h)"
  have p1: "preserves h0 ?h1" using preserves_alloc_dict[OF assms, of "[]"]
    by (simp add: alloc_dict_def)
  have l: "length (dicts h0) \<le> ?od" using preserves_lengths[OF assms] by simp
  have f1: "fresh_dict h0 ?od ?h1" using l by (simp add: fresh_dict_def)
  from apply_outer_fold_inv[OF p1 f1, of matvec vadd inplace indict jacdict] l
  show ?thesis by (simp add: apply_jacobians_store_def alloc_dict_def)
qed

lemma forward_step_store_inv:
  assumes "preserves h0 h" and "length (dicts h0) \<le> out"
  shows "preserves h0 (forward_step_store matvec vadd inplace alloutputs out curlyJ h)"
proof -
  obtain h1 od where a: "apply_jacobians_store matvec vadd inplace (prune alloutputs curlyJ) out h = (h1, od)"
    by (cases "apply_jacobians_store matvec vadd inplace (prune alloutputs curlyJ) out h")
  from apply_jacobians_store_inv[OF assms(1), of matvec vadd inplace "prune alloutputs curlyJ" out]
  have p1: "preserves h0 h1" by (simp add: a)
  show ?thesis
    unfolding forward_step_store_def a
    by (simp only: prod.case) (rule preserves_set_dict[OF p1 assms(2)])
qed

lemma forward_fold_inv:
  assumes "preserves h0 h" and "length (dicts h0) \<le> out"
  shows "preserves h0 (fold (forward_step_store matvec vadd inplace alloutputs out) curlyJs h)"
  using assms(1)
proof (induction curlyJs arbitrary: h)
  case Nil
  then show ?case by simp
next
  case (Cons J Js)
  from forward_step_store_inv[OF Cons.prems assms(2)]
  have "preserves h0 (forward_step_store matvec vadd inplace alloutputs out J h)" .
  from Cons.IH[OF this] show ?case by simp
qed

text \<open>
  Claim C10.  A call of \<^verbatim>\<open>forward_accumulate\<close> in the evaluation mode leaves the
  dictionary object it is given as it was: the bindings at its address are the same
  after the call (no key added, removed or rebound), the result is another object, and
  every object that existed before the call, dictionary or value, is unchanged.
\<close>

theorem forward_accumulate_leaves_inputs:
  assumes "inputs < length (dicts h)"
  shows "preserves h (fst (forward_accumulate_store matvec vadd inplace curlyJs inputs outputs required h)) \<and>
    dicts (fst (forward_accumulate_store matvec vadd inplace curlyJs inputs outputs required h)) ! inputs =
      dicts h ! inputs \<and>
    snd (forward_accumulate_store matvec vadd inplace curlyJs inputs outputs required h) \<noteq> inputs"
proof -
  let ?h0 = "h\<lparr>dicts := dicts h @ [dicts h ! inputs]\<rparr>"
  let ?out = "length (dicts h)"
  let ?h1 = "fold (forward_step_store matvec vadd inplace (alloutputs_of outputs required) ?out)
               curlyJs ?h0"
  have p0: "preserves h ?h0"
    using preserves_alloc_dict[OF preserves_refl, where d = "dicts h ! inputs" and h = h]
    by (simp add: alloc_dict_def)
  have p1: "preserves h ?h1" by (rule forward_fold_inv[OF p0]) simp
  let ?res = "forward_accumulate_store matvec vadd inplace curlyJs inputs outputs required h"
  have pr: "preserves h (fst ?res) \<and> length (dicts h) \<le> snd ?res"
  proof (cases outputs)
    case None
    then show ?thesis using p1 by (simp add: forward_accumulate_store_def alloc_dict_def)
  next
    case (Some os)
    have "preserves h (fst (alloc_dict (restrict_to os (dicts ?h1 ! ?out)) ?h1))"
      by (rule preserves_alloc_dict[OF p1])
    moreover have "length (dicts h) \<le> length (dicts ?h1)"
      using preserves_lengths[OF p1] by simp
    ultimately show ?thesis
      by (simp add: forward_accumulate_store_def Some alloc_dict_def Let_def)
  qed
  then have t: "take (length (dicts h)) (dicts (fst ?res)) = dicts h" by (simp add: preserves_def)
  have "dicts (fst ?res) ! inputs = take (length (dicts h)) (dicts (fst ?res)) ! inputs"
    using assms by simp
  then have "dicts (fst ?res) ! inputs = dicts h ! inputs" by (simp only: t)
  with pr assms show ?thesis by auto
qed


lemma example_run:
  "forward_accumulate_store times plus example_inplace
     [[(''y'', [(''x'', 2 :: int), (''w'', 3)])]] 0 None None example_heap =
     (\<lparr>dicts = [[(''x'', 0), (''w'', 1)], [(''x'', 0), (''w'', 1), (''y'', 2)], [(''y'', 2)]],
       objs = [5, 7, 31, 21]\<rparr>, 1)"
  by code_simp

theorem forward_accumulate_leaves_inputs_witness:
  "(0::nat) < length (dicts example_heap) \<and>
   forward_accumulate_store times plus example_inplace
     [[(''y'', [(''x'', 2 :: int), (''w'', 3)])]] 0 None None example_heap =
     (\<lparr>dicts = [[(''x'', 0), (''w'', 1)], [(''x'', 0), (''w'', 1), (''y'', 2)], [(''y'', 2)]],
       objs = [5, 7, 31, 21]\<rparr>, 1) \<and>
   dicts (fst (forward_accumulate_store times plus example_inplace
     [[(''y'', [(''x'', 2 :: int), (''w'', 3)])]] 0 None None example_heap)) ! 0 =
     [(''x'', 0), (''w'', 1)] \<and>
   preserves example_heap (fst (forward_accumulate_store times plus example_inplace
     [[(''y'', [(''x'', 2 :: int), (''w'', 3)])]] 0 None None example_heap))"
proof -
  have l: "(0::nat) < length (dicts example_heap)" by (simp add: example_heap_def)
  from forward_accumulate_leaves_inputs [OF l, of times plus example_inplace
      "[[(''y'', [(''x'', 2 :: int), (''w'', 3)])]]" None None] l example_run
  show ?thesis by (simp add: example_heap_def)
qed

section \<open>The scenario of two blocks\<close>

text \<open>
  Two blocks, \<open>y = 2 x\<close> and \<open>z = 3 y\<close>, with horizon \<open>2\<close>: the chained Jacobian of \<open>z\<close>
  with respect to \<open>x\<close> is \<open>6\<close> times the identity, and the evaluation mode on a sequence
  of ones gives \<open>z = 6\<close>.  Both run the instance of the operations for the examples.
\<close>

lemma concrete_scenario_chain:
  "entry (chain_jacobians example_matmul example_add
      [[(''y'', [(''x'', Dense (Array 2 [[2, 0], [0, 2]]))])],
       [(''z'', [(''y'', Dense (Array 2 [[3, 0], [0, 3]]))])]] [''x''] 2) ''z'' ''x'' =
     Some (Dense (Array 2 [[6, 0], [0, 6]]))"
  by code_simp

lemma concrete_scenario_evaluation:
  "forward_accumulate example_matmul example_add example_matmul example_add
      [[(''y'', [(''x'', Dense (Array 2 [[2, 0], [0, 2]]))])],
       [(''z'', [(''y'', Dense (Array 2 [[3, 0], [0, 3]]))])]]
      (InputValues [(''x'', Dense (Array 1 [[1], [1]]))]) (Some [''z'']) None =
     Values [(''z'', Dense (Array 1 [[6], [6]]))]"
  by code_simp

end
